theory Spec2Isabelle
  imports Main "HOL-Library.Word"
begin

section \<open>bgp-exporter: the neighbour parser of main.go\<close>

text \<open>
  The development embeds \<^verbatim>\<open>main.go\<close>: the four regular expressions, \<^verbatim>\<open>parseBGP\<close> with its
  loop over the lines of the router output, the process-wide slice \<^verbatim>\<open>bgpNeighbors\<close>,
  \<^verbatim>\<open>getBgpNeighbors\<close> and one round of the loop of \<^verbatim>\<open>recordMetrics\<close>.
  Go strings are byte strings, here \<open>string\<close> (a list of 8-bit \<open>char\<close>).
\<close>

subsection \<open>Character classes of the regular expressions\<close>

text \<open>
  Go's regexp package follows RE2: \<^verbatim>\<open>\d\<close> is \<^verbatim>\<open>[0-9]\<close>, \<^verbatim>\<open>\w\<close> is \<^verbatim>\<open>[0-9A-Za-z_]\<close>,
  \<^verbatim>\<open>\s\<close> is \<^verbatim>\<open>[\t\n\f\r ]\<close>, all ASCII only, and \<^verbatim>\<open>.\<close> is any character but the newline.
\<close>

definition newline :: char where
  "newline = CHR 0x0A"

definition isDigit :: "char \<Rightarrow> bool" where
  "isDigit c = (let n = (of_char c :: nat) in 48 \<le> n \<and> n \<le> 57)"

definition isWord :: "char \<Rightarrow> bool" where
  "isWord c = (let n = (of_char c :: nat) in
     (48 \<le> n \<and> n \<le> 57) \<or> (65 \<le> n \<and> n \<le> 90) \<or> n = 95 \<or> (97 \<le> n \<and> n \<le> 122))"

definition isSpace :: "char \<Rightarrow> bool" where
  "isSpace c = (let n = (of_char c :: nat) in n = 9 \<or> n = 10 \<or> n = 12 \<or> n = 13 \<or> n = 32)"

definition isDigitOrDot :: "char \<Rightarrow> bool" where
  "isDigitOrDot c = (isDigit c \<or> c = CHR ''.'')"

text \<open>A literal piece of a pattern: the rest of the text after it, if the text starts with it.\<close>

fun literal :: "string \<Rightarrow> string \<Rightarrow> string option" where
  "literal [] s = Some s"
| "literal (p # ps) [] = None"
| "literal (p # ps) (c # cs) = (if p = c then literal ps cs else None)"

text \<open>
  \<^verbatim>\<open>\s+\<close> at the start of a line, followed in each pattern by a character that is not
  white space: the longest run of white space, which must not be empty.
\<close>

definition leadingSpace :: "string \<Rightarrow> string option" where
  "leadingSpace line = (if takeWhile isSpace line = [] then None else Some (dropWhile isSpace line))"

subsection \<open>The four patterns\<close>

text \<open>
  Each definition gives \<^verbatim>\<open>FindStringSubmatch\<close> of one pattern, reduced to its capture groups:
  \<open>None\<close> when \<^verbatim>\<open>MatchString\<close> is false. Every repetition in the patterns is followed by a
  character outside its class (or by \<^verbatim>\<open>\w*$\<close>), so the leftmost-first match takes the longest
  run, written with \<open>takeWhile\<close> and \<open>dropWhile\<close>.

  \<^verbatim>\<open>bgpNeighborRegex = ^BGP neighbor is ([\d.]+), .*$\<close>
\<close>

definition bgpNeighborRegex :: "string \<Rightarrow> string option" where
  "bgpNeighborRegex line =
     (case literal ''BGP neighbor is '' line of
        None \<Rightarrow> None
      | Some r \<Rightarrow>
          (let a = takeWhile isDigitOrDot r in
           if a = [] then None
           else (case literal '', '' (dropWhile isDigitOrDot r) of
                   None \<Rightarrow> None
                 | Some t \<Rightarrow> if newline \<in> set t then None else Some a)))"

text \<open>\<^verbatim>\<open>bgpStateRegex = ^\s+BGP state = (\w+), .*$\<close>\<close>

definition bgpStateRegex :: "string \<Rightarrow> string option" where
  "bgpStateRegex line =
     (case leadingSpace line of
        None \<Rightarrow> None
      | Some r0 \<Rightarrow>
          (case literal ''BGP state = '' r0 of
             None \<Rightarrow> None
           | Some r \<Rightarrow>
               (let w = takeWhile isWord r in
                if w = [] then None
                else (case literal '', '' (dropWhile isWord r) of
                        None \<Rightarrow> None
                      | Some t \<Rightarrow> if newline \<in> set t then None else Some w))))"

text \<open>\<^verbatim>\<open>bgpAcceptedPrefixesRegex = ^\s+(\d+) accepted prefixes\w*$\<close>\<close>

definition bgpAcceptedPrefixesRegex :: "string \<Rightarrow> string option" where
  "bgpAcceptedPrefixesRegex line =
     (case leadingSpace line of
        None \<Rightarrow> None
      | Some r \<Rightarrow>
          (let d = takeWhile isDigit r in
           if d = [] then None
           else (case literal '' accepted prefixes'' (dropWhile isDigit r) of
                   None \<Rightarrow> None
                 | Some t \<Rightarrow> if list_all isWord t then Some d else None)))"

text \<open>
  \<^verbatim>\<open>bgpConnectionsEstablishedDroppedRegex = ^\s+Connections established (\d+); dropped (\d+)\w*$\<close>
\<close>

definition bgpConnectionsEstablishedDroppedRegex :: "string \<Rightarrow> (string \<times> string) option" where
  "bgpConnectionsEstablishedDroppedRegex line =
     (case leadingSpace line of
        None \<Rightarrow> None
      | Some r0 \<Rightarrow>
          (case literal ''Connections established '' r0 of
             None \<Rightarrow> None
           | Some r \<Rightarrow>
               (let e = takeWhile isDigit r in
                if e = [] then None
                else (case literal ''; dropped '' (dropWhile isDigit r) of
                        None \<Rightarrow> None
                      | Some r2 \<Rightarrow>
                          (let d = takeWhile isDigit r2 in
                           if d = [] then None
                           else if list_all isWord (dropWhile isDigit r2) then Some (e, d)
                           else None)))))"

subsection \<open>Splitting and joining at a separator\<close>

text \<open>
  The pieces of a text between the occurrences of a one-character separator, as
  \<^verbatim>\<open>strings.Split\<close> yields them for the lines and as the IPv4 parser reads the fields of
  an address; the second argument collects the current piece in reverse. A text without the
  separator is one piece, the empty text is one empty piece.
\<close>

fun splitOn :: "char \<Rightarrow> string \<Rightarrow> string \<Rightarrow> string list" where
  "splitOn sep [] acc = [rev acc]"
| "splitOn sep (c # cs) acc =
     (if c = sep then rev acc # splitOn sep cs [] else splitOn sep cs (c # acc))"

text \<open>The text whose pieces are the given ones: how a block of lines is written down.\<close>

fun joinWith :: "char \<Rightarrow> string list \<Rightarrow> string" where
  "joinWith sep [] = []"
| "joinWith sep [l] = l"
| "joinWith sep (l # ls) = l @ sep # joinWith sep ls"

subsection \<open>float64 values and strconv.ParseFloat\<close>

text \<open>
  The fields of a neighbour are \<^verbatim>\<open>float64\<close>. The program only ever stores the constants 0 to 6
  and the results of \<^verbatim>\<open>strconv.ParseFloat\<close> on a string of decimal digits, which are
  non-negative integers or, for a number past the largest float64, +Inf (the range error is
  dropped by \<^verbatim>\<open>pref, _ :=\<close>). A value is therefore a natural number or infinity.
  \<^verbatim>\<open>ParseFloat\<close> rounds to the nearest float64, ties to even: 53 bits of mantissa,
  and what rounds to \<open>2 ^ 1024\<close> or more is +Inf.
\<close>

datatype float64 = Finite nat | PosInf

fun bitlen :: "nat \<Rightarrow> nat" where
  "bitlen n = (if n = 0 then 0 else Suc (bitlen (n div 2)))"

declare bitlen.simps [simp del]

definition roundFloat64 :: "nat \<Rightarrow> float64" where
  "roundFloat64 n =
     (if n < 2 ^ 53 then Finite n
      else (let e = bitlen n - 53;
                q = n div 2 ^ e;
                r = n mod 2 ^ e;
                h = 2 ^ (e - 1);
                m = (if h < r \<or> (r = h \<and> odd q) then q + 1 else q) * 2 ^ e
            in if m < 2 ^ 1024 then Finite m else PosInf))"

definition digitVal :: "char \<Rightarrow> nat" where
  "digitVal c = of_char c - 48"

fun decimal :: "string \<Rightarrow> nat \<Rightarrow> nat" where
  "decimal [] acc = acc"
| "decimal (c # cs) acc = decimal cs (10 * acc + digitVal c)"

definition ParseFloat :: "string \<Rightarrow> float64" where
  "ParseFloat ds = roundFloat64 (decimal ds 0)"

subsection \<open>net.IP, net.ParseIP and IP.String\<close>

text \<open>
  \<^verbatim>\<open>net.ParseIP\<close> is only applied to the capture of \<^verbatim>\<open>([\d.]+)\<close>, a string of digits and dots.
  On such a string it yields an IPv4 address or nil, so the type has these two shapes
  (\<open>IPnil\<close> is the nil slice, \<open>IPv4 a b c d\<close> the address with these four bytes).
  The parser is that of Go 1.17 and later: four fields separated by dots, each with at least
  one digit, no leading zero in a field of two or more digits, and a value of at most 255.
  \<^verbatim>\<open>IP.String\<close> is \<^verbatim>\<open><nil>\<close> for the nil slice and the dotted decimal form otherwise.
\<close>

datatype IP = IPnil | IPv4 "8 word" "8 word" "8 word" "8 word"


definition parseOctet :: "string \<Rightarrow> 8 word option" where
  "parseOctet f =
     (if f \<noteq> [] \<and> list_all isDigit f \<and> (length f = 1 \<or> hd f \<noteq> CHR ''0'') \<and> decimal f 0 \<le> 255
      then Some (of_nat (decimal f 0)) else None)"

definition ParseIP :: "string \<Rightarrow> IP" where
  "ParseIP s =
     (case map parseOctet (splitOn CHR ''.'' s []) of
        [Some a, Some b, Some c, Some d] \<Rightarrow> IPv4 a b c d
      | _ \<Rightarrow> IPnil)"

definition digitChar :: "nat \<Rightarrow> char" where
  "digitChar n = char_of (48 + n)"

fun showNat :: "nat \<Rightarrow> string" where
  "showNat n = (if n < 10 then [digitChar n] else showNat (n div 10) @ [digitChar (n mod 10)])"

declare showNat.simps [simp del]

fun ipString :: "IP \<Rightarrow> string" where
  "ipString IPnil = ''<nil>''"
| "ipString (IPv4 a b c d) =
     showNat (unat a) @ ''.'' @ showNat (unat b) @ ''.'' @ showNat (unat c) @ ''.'' @ showNat (unat d)"

subsection \<open>The neighbour record and the store\<close>

record BgpNeighbor =
  IP :: IP
  State :: float64
  AcceptedPrefixes :: float64
  ConnectionsEstablished :: float64
  ConnectionsDropped :: float64

text \<open>\<^verbatim>\<open>new(BgpNeighbor)\<close>: every field has its zero value, the IP is the nil slice.\<close>

definition newBgpNeighbor :: BgpNeighbor where
  "newBgpNeighbor = \<lparr>IP = IPnil, State = Finite 0, AcceptedPrefixes = Finite 0,
     ConnectionsEstablished = Finite 0, ConnectionsDropped = Finite 0\<rparr>"

text \<open>
  Lines 156 to 165: the loop over \<^verbatim>\<open>bgpNeighbors\<close> overwrites every element whose
  \<^verbatim>\<open>IP.String()\<close> equals \<^verbatim>\<open>neigh\<close> and reports whether there was one; without one the
  record is appended.
\<close>

fun replaceLoop :: "string \<Rightarrow> BgpNeighbor \<Rightarrow> BgpNeighbor list \<Rightarrow> bool \<times> BgpNeighbor list" where
  "replaceLoop n b [] = (False, [])"
| "replaceLoop n b (r # rs) =
     (let (found, rs') = replaceLoop n b rs in
      if ipString (IP r) = n then (True, b # rs') else (found, r # rs'))"

definition commit :: "string \<Rightarrow> BgpNeighbor \<Rightarrow> BgpNeighbor list \<Rightarrow> BgpNeighbor list" where
  "commit n b store =
     (let (found, store') = replaceLoop n b store in
      if \<not> found then store' @ [b] else store')"

subsection \<open>parseBGP\<close>

text \<open>
  The switch of lines 126 to 142: \<^verbatim>\<open>var state float64\<close> starts at 0 and the switch has no
  default case.
\<close>

definition stateOf :: "string \<Rightarrow> float64" where
  "stateOf w =
     (if w = ''Idle'' then Finite 1
      else if w = ''Connect'' then Finite 2
      else if w = ''Active'' then Finite 3
      else if w = ''Opensent'' then Finite 4
      else if w = ''Openconfirm'' then Finite 5
      else if w = ''Established'' then Finite 6
      else Finite 0)"

text \<open>
  The ways the process can stop: \<^verbatim>\<open>log.Fatalf\<close> prints the message and exits with status 1;
  dereferencing the nil \<^verbatim>\<open>bgpNeigh\<close> would panic.
\<close>

datatype abort = Fatal string | NilPointer

text \<open>
  The variables of \<^verbatim>\<open>parseBGP\<close> and the global slice. \<^verbatim>\<open>bgpNeigh\<close> is the only pointer to its
  record and the slice holds copies (\<^verbatim>\<open>*bgpNeigh\<close>), so the record is kept by value.
\<close>

record pstate =
  neigh :: string
  bgpNeigh :: "BgpNeighbor option"
  bgpNeighbors :: "BgpNeighbor list"

text \<open>The body of the loop, lines 107 to 167, for one line.\<close>

definition parseLine :: "string \<Rightarrow> pstate \<Rightarrow> abort + pstate" where
  "parseLine line st =
     (let st1 = (case bgpNeighborRegex line of
                   Some a \<Rightarrow> st\<lparr>neigh := a, bgpNeigh := Some newBgpNeighbor\<rparr>
                 | None \<Rightarrow> st)
      in if neigh st1 \<noteq> [] then
           (case bgpNeigh st1 of
              None \<Rightarrow> Inl NilPointer
            | Some b0 \<Rightarrow>
                (let b1 = b0\<lparr>IP := ParseIP (neigh st1)\<rparr>;
                     b2 = (case bgpStateRegex line of
                             Some w \<Rightarrow> b1\<lparr>State := stateOf w\<rparr>
                           | None \<Rightarrow> b1);
                     b3 = (case bgpAcceptedPrefixesRegex line of
                             Some p \<Rightarrow> b2\<lparr>AcceptedPrefixes := ParseFloat p\<rparr>
                           | None \<Rightarrow> b2)
                 in (case bgpConnectionsEstablishedDroppedRegex line of
                       Some (e, d) \<Rightarrow>
                         (let b4 = b3\<lparr>ConnectionsEstablished := ParseFloat e,
                                      ConnectionsDropped := ParseFloat d\<rparr>
                          in Inr (st1\<lparr>bgpNeigh := Some b4,
                                      bgpNeighbors := commit (neigh st1) b4 (bgpNeighbors st1)\<rparr>))
                     | None \<Rightarrow> Inr (st1\<lparr>bgpNeigh := Some b3\<rparr>))))
         else Inr st1)"

fun parseLines :: "string list \<Rightarrow> pstate \<Rightarrow> abort + pstate" where
  "parseLines [] st = Inr st"
| "parseLines (l # ls) st =
     (case parseLine l st of Inl a \<Rightarrow> Inl a | Inr st' \<Rightarrow> parseLines ls st')"

text \<open>\<^verbatim>\<open>strings.TrimSuffix(s, "\n")\<close> and \<^verbatim>\<open>strings.Split(_, "\n")\<close>.\<close>

definition TrimSuffix :: "string \<Rightarrow> string" where
  "TrimSuffix s = (if s \<noteq> [] \<and> last s = newline then butlast s else s)"

definition Split :: "string \<Rightarrow> string list" where
  "Split s = splitOn newline s []"

text \<open>
  \<^verbatim>\<open>parseBGP\<close> reads and writes the global slice: it is passed in and returned.
  Both local variables start empty (\<^verbatim>\<open>var bgpNeigh *BgpNeighbor\<close>, \<^verbatim>\<open>neigh := ""\<close>).
\<close>

definition initState :: "BgpNeighbor list \<Rightarrow> pstate" where
  "initState store = \<lparr>neigh = [], bgpNeigh = None, bgpNeighbors = store\<rparr>"

definition parseBGP :: "string \<Rightarrow> BgpNeighbor list \<Rightarrow> abort + BgpNeighbor list" where
  "parseBGP s store =
     (case parseLines (Split (TrimSuffix s)) (initState store) of
        Inl a \<Rightarrow> Inl a
      | Inr st \<Rightarrow> Inr (bgpNeighbors st))"

subsection \<open>getBgpNeighbors and the loop of recordMetrics\<close>

text \<open>
  What \<^verbatim>\<open>cmd.Run()\<close> leaves behind: the two buffers and the error, \<open>None\<close> for \<^verbatim>\<open>nil\<close>.
\<close>

record cmdResult =
  sout :: string
  serr :: string
  err :: "string option"

definition getBgpNeighbors :: "cmdResult \<Rightarrow> abort + (string \<times> string)" where
  "getBgpNeighbors r =
     (case err r of
        Some e \<Rightarrow> Inl (Fatal (''Failed to execute vtysh command: '' @ e @ [newline]))
      | None \<Rightarrow> Inr (sout r, serr r))"

text \<open>
  One round of the loop, up to the gauges: \<^verbatim>\<open>o, _ := getBgpNeighbors(); parseBGP(o)\<close>.
\<close>

definition pollCycle :: "cmdResult \<Rightarrow> BgpNeighbor list \<Rightarrow> abort + BgpNeighbor list" where
  "pollCycle r store =
     (case getBgpNeighbors r of
        Inl a \<Rightarrow> Inl a
      | Inr (out, _) \<Rightarrow> parseBGP out store)"

text \<open>The rounds of the loop, one command result per round, from the slice's state at the start.\<close>

fun pollLoop :: "cmdResult list \<Rightarrow> BgpNeighbor list \<Rightarrow> abort + BgpNeighbor list" where
  "pollLoop [] store = Inr store"
| "pollLoop (r # rs) store =
     (case pollCycle r store of Inl a \<Rightarrow> Inl a | Inr store' \<Rightarrow> pollLoop rs store')"

subsection \<open>Notions used to state the properties\<close>

text \<open>A line is recognised when one of the four patterns matches it.\<close>

definition recognized :: "string \<Rightarrow> bool" where
  "recognized line \<longleftrightarrow>
     bgpNeighborRegex line \<noteq> None \<or> bgpStateRegex line \<noteq> None \<or>
     bgpAcceptedPrefixesRegex line \<noteq> None \<or> bgpConnectionsEstablishedDroppedRegex line \<noteq> None"

text \<open>
  The states the loop can be in: while \<^verbatim>\<open>neigh\<close> is empty the pointer may be nil; once a header
  has been seen the pointer is set and, after the first statement of the guarded block, the
  record's IP is \<^verbatim>\<open>net.ParseIP(neigh)\<close>.
\<close>

definition consistent :: "pstate \<Rightarrow> bool" where
  "consistent st \<longleftrightarrow>
     (case bgpNeigh st of None \<Rightarrow> neigh st = [] | Some b \<Rightarrow> neigh st \<noteq> [] \<longrightarrow> IP b = ParseIP (neigh st))"

text \<open>
  The identity of a stored neighbour is the text of its address, \<^verbatim>\<open>IP.String()\<close>: the loop
  of lines 157 to 162 compares it with \<^verbatim>\<open>neigh\<close> and the gauges are labelled with it.
\<close>

definition identity :: "BgpNeighbor \<Rightarrow> string" where
  "identity r = ipString (IP r)"

text \<open>
  Putting further lines into a block: \<open>insertLine i l ls\<close> has the line \<open>l\<close> before position
  \<open>i\<close> of \<open>ls\<close> (at the end when \<open>i\<close> is past it), \<open>insertLines\<close> does so for one pair
  after the other.
\<close>

definition insertLine :: "nat \<Rightarrow> string \<Rightarrow> string list \<Rightarrow> string list" where
  "insertLine i l ls = take i ls @ l # drop i ls"

fun insertLines :: "(nat \<times> string) list \<Rightarrow> string list \<Rightarrow> string list" where
  "insertLines [] ls = ls"
| "insertLines ((i, l) # ins) ls = insertLines ins (insertLine i l ls)"

text \<open>
  The commits of a run. Lines 156 to 165 are reached when the connection-counters pattern
  matches the line and \<^verbatim>\<open>neigh\<close> is not empty; what is committed is \<^verbatim>\<open>*bgpNeigh\<close> as the line
  leaves it, under the key \<^verbatim>\<open>neigh\<close>. \<open>commitOf\<close> reads this off the state after the line,
  \<open>commitTrace\<close> collects it along the loop, and \<open>committedRecords\<close> is the sequence for a
  whole call of \<^verbatim>\<open>parseBGP\<close>. \<open>applyCommits\<close> performs a sequence of commits on a slice; that
  the slice after the loop is the slice before it with the trace applied is lemma
  \<open>commitTrace_sound\<close>.
\<close>

definition commitOf :: "string \<Rightarrow> pstate \<Rightarrow> (string \<times> BgpNeighbor) list" where
  "commitOf line st' =
     (if bgpConnectionsEstablishedDroppedRegex line \<noteq> None \<and> neigh st' \<noteq> []
      then (case bgpNeigh st' of Some b \<Rightarrow> [(neigh st', b)] | None \<Rightarrow> [])
      else [])"

fun commitTrace :: "string list \<Rightarrow> pstate \<Rightarrow> (string \<times> BgpNeighbor) list" where
  "commitTrace [] st = []"
| "commitTrace (l # ls) st =
     (case parseLine l st of
        Inl a \<Rightarrow> []
      | Inr st' \<Rightarrow> commitOf l st' @ commitTrace ls st')"

definition committedRecords :: "string \<Rightarrow> BgpNeighbor list \<Rightarrow> (string \<times> BgpNeighbor) list" where
  "committedRecords s store = commitTrace (Split (TrimSuffix s)) (initState store)"

definition applyCommits :: "(string \<times> BgpNeighbor) list \<Rightarrow> BgpNeighbor list \<Rightarrow> BgpNeighbor list" where
  "applyCommits cs store = foldl (\<lambda>s (n, b). commit n b s) store cs"

text \<open>
  At most one stored record for each identity other than that of the nil address, and the
  relation between a slice and a later one that the loop maintains: the later one is at least
  as long, has the same identities at the positions of the earlier one, and is free of
  repeated identities if the earlier one was.
\<close>

definition distinctParsed :: "BgpNeighbor list \<Rightarrow> bool" where
  "distinctParsed store = distinct (filter (\<lambda>k. k \<noteq> ''<nil>'') (map identity store))"

definition extends :: "BgpNeighbor list \<Rightarrow> BgpNeighbor list \<Rightarrow> bool" where
  "extends store store' \<longleftrightarrow>
     length store \<le> length store' \<and>
     take (length store) (map identity store') = map identity store \<and>
     (distinctParsed store \<longrightarrow> distinctParsed store')"








section \<open>Evaluation on concrete inputs\<close>

lemma digitChar_eval:
  "digitChar 0 = CHR ''0''" "digitChar (Suc 0) = CHR ''1''" "digitChar 1 = CHR ''1''"
  "digitChar 2 = CHR ''2''" "digitChar 3 = CHR ''3''" "digitChar 4 = CHR ''4''"
  "digitChar 5 = CHR ''5''" "digitChar 6 = CHR ''6''" "digitChar 7 = CHR ''7''"
  "digitChar 8 = CHR ''8''" "digitChar 9 = CHR ''9''"
  by (code_simp+)

lemmas regex_defs = bgpNeighborRegex_def bgpStateRegex_def bgpAcceptedPrefixesRegex_def
  bgpConnectionsEstablishedDroppedRegex_def leadingSpace_def isDigitOrDot_def isDigit_def
  isWord_def isSpace_def newline_def

lemmas value_defs = ParseFloat_def roundFloat64_def digitVal_def ParseIP_def parseOctet_def
  digitChar_eval showNat.simps stateOf_def

lemmas parse_defs = parseBGP_def parseLine_def commit_def newBgpNeighbor_def TrimSuffix_def
  Split_def initState_def identity_def Let_def

section \<open>The classes of lines exclude each other\<close>


lemma literal_Cons_Some: "literal (p # ps) r = Some t \<Longrightarrow> \<exists>r'. r = p # r'"
  by (cases r) (auto split: if_splits)

lemma takeWhile_nonempty: "takeWhile P r \<noteq> [] \<Longrightarrow> \<exists>c r'. r = c # r' \<and> P c"
  by (cases r) (auto split: if_splits)

lemma header_no_leadingSpace: "bgpNeighborRegex line = Some a \<Longrightarrow> leadingSpace line = None"
  by (cases line) (auto simp: bgpNeighborRegex_def leadingSpace_def isSpace_def split: option.splits if_splits)

lemma header_nonempty: "bgpNeighborRegex line = Some a \<Longrightarrow> a \<noteq> []"
  by (auto simp: bgpNeighborRegex_def Let_def split: option.splits if_splits)

lemma state_first:
  assumes "bgpStateRegex line = Some w"
  shows "\<exists>t. leadingSpace line = Some (CHR ''B'' # t)"
proof -
  from assms obtain r0 r where "leadingSpace line = Some r0" "literal ''BGP state = '' r0 = Some r"
    by (auto simp: bgpStateRegex_def split: option.splits)
  then show ?thesis using literal_Cons_Some by fastforce
qed

lemma prefixes_first:
  assumes "bgpAcceptedPrefixesRegex line = Some p"
  shows "\<exists>c t. leadingSpace line = Some (c # t) \<and> isDigit c"
proof -
  from assms obtain r where "leadingSpace line = Some r" "takeWhile isDigit r \<noteq> []"
    by (auto simp: bgpAcceptedPrefixesRegex_def Let_def split: option.splits if_splits)
  then show ?thesis using takeWhile_nonempty by fastforce
qed

lemma counters_first:
  assumes "bgpConnectionsEstablishedDroppedRegex line = Some ed"
  shows "\<exists>t. leadingSpace line = Some (CHR ''C'' # t)"
proof -
  from assms obtain r0 r where "leadingSpace line = Some r0"
      "literal ''Connections established '' r0 = Some r"
    by (auto simp: bgpConnectionsEstablishedDroppedRegex_def split: option.splits)
  then show ?thesis using literal_Cons_Some by fastforce
qed

lemma not_digit_B: "\<not> isDigit CHR ''B''" and not_digit_C: "\<not> isDigit CHR ''C''"
  by (simp_all add: isDigit_def)

lemma header_excludes:
  assumes "bgpNeighborRegex line = Some a"
  shows "bgpStateRegex line = None" "bgpAcceptedPrefixesRegex line = None"
    "bgpConnectionsEstablishedDroppedRegex line = None"
  using header_no_leadingSpace [OF assms]
  by (simp_all add: bgpStateRegex_def bgpAcceptedPrefixesRegex_def
      bgpConnectionsEstablishedDroppedRegex_def)

lemma state_excludes:
  assumes "bgpStateRegex line = Some w"
  shows "bgpNeighborRegex line = None" "bgpAcceptedPrefixesRegex line = None"
    "bgpConnectionsEstablishedDroppedRegex line = None"
proof -
  from state_first [OF assms] obtain t where t: "leadingSpace line = Some (CHR ''B'' # t)" ..
  show "bgpNeighborRegex line = None"
    using t header_no_leadingSpace by (cases "bgpNeighborRegex line") auto
  show "bgpAcceptedPrefixesRegex line = None"
    using t prefixes_first [of line] not_digit_B by (cases "bgpAcceptedPrefixesRegex line") auto
  show "bgpConnectionsEstablishedDroppedRegex line = None"
    using t counters_first [of line]
    by (cases "bgpConnectionsEstablishedDroppedRegex line") auto
qed

lemma prefixes_excludes:
  assumes "bgpAcceptedPrefixesRegex line = Some p"
  shows "bgpNeighborRegex line = None" "bgpStateRegex line = None"
    "bgpConnectionsEstablishedDroppedRegex line = None"
proof -
  from prefixes_first [OF assms] obtain c t
    where t: "leadingSpace line = Some (c # t)" "isDigit c" by blast
  show "bgpNeighborRegex line = None"
    using t header_no_leadingSpace by (cases "bgpNeighborRegex line") auto
  show "bgpStateRegex line = None"
    using t state_first [of line] not_digit_B by (cases "bgpStateRegex line") auto
  show "bgpConnectionsEstablishedDroppedRegex line = None"
    using t counters_first [of line] not_digit_C
    by (cases "bgpConnectionsEstablishedDroppedRegex line") auto
qed

lemma counters_excludes:
  assumes "bgpConnectionsEstablishedDroppedRegex line = Some ed"
  shows "bgpNeighborRegex line = None" "bgpStateRegex line = None"
    "bgpAcceptedPrefixesRegex line = None"
proof -
  from counters_first [OF assms] obtain t where t: "leadingSpace line = Some (CHR ''C'' # t)" ..
  show "bgpNeighborRegex line = None"
    using t header_no_leadingSpace by (cases "bgpNeighborRegex line") auto
  show "bgpStateRegex line = None"
    using t state_first [of line] by (cases "bgpStateRegex line") auto
  show "bgpAcceptedPrefixesRegex line = None"
    using t prefixes_first [of line] not_digit_C by (cases "bgpAcceptedPrefixesRegex line") auto
qed

section \<open>One line of the loop, by the class of the line\<close>

lemma parseLine_header:
  assumes "bgpNeighborRegex line = Some a"
  shows "parseLine line st =
     Inr \<lparr>neigh = a, bgpNeigh = Some (newBgpNeighbor\<lparr>IP := ParseIP a\<rparr>),
          bgpNeighbors = bgpNeighbors st\<rparr>"
  using assms header_nonempty [OF assms] header_excludes [OF assms]
  by (simp add: parseLine_def)

lemma parseLine_state:
  assumes "bgpStateRegex line = Some w" "neigh st \<noteq> []" "bgpNeigh st = Some b"
  shows "parseLine line st =
     Inr (st\<lparr>bgpNeigh := Some (b\<lparr>IP := ParseIP (neigh st), State := stateOf w\<rparr>)\<rparr>)"
  using assms state_excludes [OF assms(1)] by (simp add: parseLine_def)

lemma parseLine_prefixes:
  assumes "bgpAcceptedPrefixesRegex line = Some p" "neigh st \<noteq> []" "bgpNeigh st = Some b"
  shows "parseLine line st =
     Inr (st\<lparr>bgpNeigh := Some (b\<lparr>IP := ParseIP (neigh st), AcceptedPrefixes := ParseFloat p\<rparr>)\<rparr>)"
  using assms prefixes_excludes [OF assms(1)] by (simp add: parseLine_def)

lemma parseLine_counters:
  assumes "bgpConnectionsEstablishedDroppedRegex line = Some (e, d)"
    "neigh st \<noteq> []" "bgpNeigh st = Some b"
  shows "parseLine line st =
     Inr (st\<lparr>bgpNeigh := Some (b\<lparr>IP := ParseIP (neigh st),
                 ConnectionsEstablished := ParseFloat e, ConnectionsDropped := ParseFloat d\<rparr>),
             bgpNeighbors := commit (neigh st)
                 (b\<lparr>IP := ParseIP (neigh st),
                 ConnectionsEstablished := ParseFloat e, ConnectionsDropped := ParseFloat d\<rparr>)
                 (bgpNeighbors st)\<rparr>)"
  using assms counters_excludes [OF assms(1)] by (simp add: parseLine_def Let_def)

lemma parseLine_closed:
  assumes "bgpNeighborRegex line = None" "neigh st = []"
  shows "parseLine line st = Inr st"
  using assms by (simp add: parseLine_def)


lemma parseLine_unrecognized:
  assumes "\<not> recognized line" "neigh st \<noteq> []" "bgpNeigh st = Some b"
  shows "parseLine line st = Inr (st\<lparr>bgpNeigh := Some (b\<lparr>IP := ParseIP (neigh st)\<rparr>)\<rparr>)"
  using assms by (auto simp: parseLine_def recognized_def Let_def split: option.splits)



lemma consistent_initState: "consistent (initState store)"
  by (simp add: consistent_def initState_def)

lemma parseLine_consistent:
  assumes "consistent st"
  shows "\<exists>st'. parseLine line st = Inr st' \<and> consistent st'"
proof (cases "bgpNeighborRegex line")
  case (Some a)
  then show ?thesis
    using header_nonempty [OF Some] by (simp add: parseLine_header consistent_def)
next
  case None
  show ?thesis
  proof (cases "neigh st = []")
    case True
    then show ?thesis using None assms by (simp add: parseLine_closed)
  next
    case False
    then obtain b where b: "bgpNeigh st = Some b"
      using assms by (auto simp: consistent_def split: option.splits)
    show ?thesis using None False b
      by (auto simp: parseLine_def consistent_def Let_def split: option.splits)
  qed
qed

lemma parseLine_unrecognized_id:
  assumes "consistent st" "\<not> recognized line"
  shows "parseLine line st = Inr st"
proof (cases "neigh st = []")
  case True
  then show ?thesis using assms(2) by (simp add: parseLine_closed recognized_def)
next
  case False
  then obtain b where b: "bgpNeigh st = Some b" "IP b = ParseIP (neigh st)"
    using assms(1) by (auto simp: consistent_def split: option.splits)
  have "b\<lparr>IP := ParseIP (neigh st)\<rparr> = b" using b(2) by simp
  then show ?thesis using parseLine_unrecognized [OF assms(2) False b(1)] b(1) by simp
qed


lemma parseLines_consistent:
  "consistent st \<Longrightarrow> \<exists>st'. parseLines ls st = Inr st' \<and> consistent st'"
proof (induction ls arbitrary: st)
  case Nil
  then show ?case by simp
next
  case (Cons l ls)
  from parseLine_consistent [OF Cons.prems] obtain st1
    where "parseLine l st = Inr st1" "consistent st1" by blast
  then show ?case using Cons.IH [of st1] by simp
qed

lemma parseLines_filter_recognized:
  "consistent st \<Longrightarrow> parseLines ls st = parseLines (filter recognized ls) st"
proof (induction ls arbitrary: st)
  case Nil
  then show ?case by simp
next
  case (Cons l ls)
  show ?case
  proof (cases "recognized l")
    case True
    from parseLine_consistent [OF Cons.prems] obtain st1
      where "parseLine l st = Inr st1" "consistent st1" by blast
    then show ?thesis using True Cons.IH [of st1] by simp
  next
    case False
    then show ?thesis
      using parseLine_unrecognized_id [OF Cons.prems False] Cons.IH [OF Cons.prems] by simp
  qed
qed

section \<open>Splitting and joining\<close>

lemma splitOn_nonempty: "splitOn sep s acc \<noteq> []"
  by (induction s arbitrary: acc) auto

lemma joinWith_Cons: "ls \<noteq> [] \<Longrightarrow> joinWith sep (l # ls) = l @ sep # joinWith sep ls"
  by (cases ls) auto

lemma joinWith_splitOn: "joinWith sep (splitOn sep s acc) = rev acc @ s"
  by (induction s arbitrary: acc) (auto simp: joinWith_Cons splitOn_nonempty)

lemma splitOn_no_sep:
  "sep \<notin> set acc \<Longrightarrow> \<forall>l \<in> set (splitOn sep s acc). sep \<notin> set l"
proof (induction s arbitrary: acc)
  case Nil
  then show ?case by simp
next
  case (Cons c cs)
  show ?case
  proof (cases "c = sep")
    case True
    then show ?thesis using Cons.prems Cons.IH [of "[]"] by simp
  next
    case False
    then show ?thesis using Cons.prems Cons.IH [of "c # acc"] by simp
  qed
qed

lemma splitOn_append_piece:
  "sep \<notin> set l \<Longrightarrow> splitOn sep (l @ rest) acc = splitOn sep rest (rev l @ acc)"
  by (induction l arbitrary: acc) auto

lemma splitOn_piece_sep:
  "sep \<notin> set l \<Longrightarrow> splitOn sep (l @ sep # rest) acc = (rev acc @ l) # splitOn sep rest []"
  by (simp add: splitOn_append_piece)

lemma splitOn_last_piece: "sep \<notin> set l \<Longrightarrow> splitOn sep l acc = [rev acc @ l]"
  using splitOn_append_piece [of sep l "[]" acc] by simp

lemma splitOn_joinWith:
  "ls \<noteq> [] \<Longrightarrow> \<forall>l \<in> set ls. sep \<notin> set l \<Longrightarrow> splitOn sep (joinWith sep ls) [] = ls"
proof (induction ls)
  case Nil
  then show ?case by simp
next
  case (Cons l ls)
  show ?case
  proof (cases "ls = []")
    case True
    then show ?thesis using Cons.prems by (simp add: splitOn_last_piece)
  next
    case False
    then show ?thesis using Cons by (simp add: joinWith_Cons splitOn_piece_sep)
  qed
qed

section \<open>Decimal numbers\<close>

lemma digitVal_digitChar: "k < 10 \<Longrightarrow> digitVal (digitChar k) = k"
  by (simp add: digitVal_def digitChar_def)

lemma isDigit_digitChar: "k < 10 \<Longrightarrow> isDigit (digitChar k)"
  by (simp add: isDigit_def digitChar_def)

lemma digitChar_digitVal: "isDigit c \<Longrightarrow> digitChar (digitVal c) = c"
  by (simp add: isDigit_def digitChar_def digitVal_def Let_def)

lemma digitVal_less: "isDigit c \<Longrightarrow> digitVal c < 10"
  by (auto simp: isDigit_def digitVal_def Let_def)

lemma isDigit_not_dot: "isDigit c \<Longrightarrow> c \<noteq> CHR ''.''"
  by (auto simp: isDigit_def)

lemma digitVal_zero: "isDigit c \<Longrightarrow> digitVal c = 0 \<Longrightarrow> c = CHR ''0''"
  using digitChar_digitVal [of c] digitChar_eval(1) by simp

lemma decimal_append: "decimal (xs @ ys) acc = decimal ys (decimal xs acc)"
  by (induction xs arbitrary: acc) auto

lemma decimal_ge: "acc \<le> decimal xs acc"
proof (induction xs arbitrary: acc)
  case Nil
  then show ?case by simp
next
  case (Cons c cs)
  have "acc \<le> 10 * acc + digitVal c" by simp
  also have "\<dots> \<le> decimal cs (10 * acc + digitVal c)" by (rule Cons.IH)
  finally show ?case by simp
qed

lemma decimal_showNat: "decimal (showNat n) 0 = n"
proof (induction n rule: showNat.induct)
  case (1 n)
  show ?case
  proof (cases "n < 10")
    case True
    then show ?thesis by (simp add: showNat.simps [of n] digitVal_digitChar)
  next
    case False
    then show ?thesis using 1
      by (simp add: showNat.simps [of n] decimal_append digitVal_digitChar)
  qed
qed

lemma showNat_digits: "list_all isDigit (showNat n)"
proof (induction n rule: showNat.induct)
  case (1 n)
  show ?case
  proof (cases "n < 10")
    case True
    then show ?thesis by (simp add: showNat.simps [of n] isDigit_digitChar)
  next
    case False
    then show ?thesis using 1 by (simp add: showNat.simps [of n] isDigit_digitChar)
  qed
qed

lemma showNat_nonempty: "showNat n \<noteq> []"
  by (simp add: showNat.simps [of n])

lemma showNat_hd: "0 < n \<Longrightarrow> hd (showNat n) \<noteq> CHR ''0''"
proof (induction n rule: showNat.induct)
  case (1 n)
  show ?case
  proof (cases "n < 10")
    case True
    have "digitVal (digitChar n) = n" using True by (rule digitVal_digitChar)
    moreover have "digitVal CHR ''0'' = 0" by (simp add: digitVal_def)
    ultimately have "digitChar n \<noteq> CHR ''0''" using "1.prems" by auto
    then show ?thesis using True by (simp add: showNat.simps [of n])
  next
    case False
    then have "0 < n div 10" by simp
    then show ?thesis using False 1 by (simp add: showNat.simps [of n] showNat_nonempty)
  qed
qed

lemma showNat_canonical: "length (showNat n) = 1 \<or> hd (showNat n) \<noteq> CHR ''0''"
proof (cases "n = 0")
  case True
  then show ?thesis by (simp add: showNat.simps [of 0])
next
  case False
  then show ?thesis using showNat_hd [of n] by simp
qed

lemma parseOctet_showNat: "parseOctet (showNat (unat a)) = Some a"
proof -
  have "unat a < 2 ^ LENGTH(8)" by (rule unsigned_less)
  then have "unat a \<le> 255" by simp
  then show ?thesis
    using showNat_canonical [of "unat a"]
    by (simp add: parseOctet_def showNat_nonempty showNat_digits decimal_showNat)
qed

lemma showNat_no_dot: "CHR ''.'' \<notin> set (showNat n)"
  using showNat_digits [of n] isDigit_not_dot by (auto simp: list_all_iff)

lemma ParseIP_ipString: "ParseIP (ipString ip) = ip"
proof (cases ip)
  case IPnil
  then show ?thesis by (simp add: ParseIP_def parseOctet_def isDigit_def)
next
  case (IPv4 a b c d)
  have "splitOn CHR ''.'' (ipString ip) [] =
      [showNat (unat a), showNat (unat b), showNat (unat c), showNat (unat d)]"
    using IPv4 by (simp add: splitOn_piece_sep splitOn_last_piece showNat_no_dot)
  then show ?thesis using IPv4 by (simp add: ParseIP_def parseOctet_showNat)
qed

lemma decimal_pos:
  assumes "f \<noteq> []" "list_all isDigit f" "hd f \<noteq> CHR ''0''"
  shows "0 < decimal f 0"
proof -
  obtain c cs where f: "f = c # cs" using assms(1) by (cases f) auto
  then have "0 < digitVal c" using assms(2,3) digitVal_zero [of c] by auto
  then show ?thesis using decimal_ge [of "digitVal c" cs] f by simp
qed

lemma showNat_decimal:
  "f \<noteq> [] \<Longrightarrow> list_all isDigit f \<Longrightarrow> length f = 1 \<or> hd f \<noteq> CHR ''0'' \<Longrightarrow> showNat (decimal f 0) = f"
proof (induction f rule: rev_induct)
  case Nil
  then show ?case by simp
next
  case (snoc c g)
  have c: "isDigit c" using snoc.prems(2) by simp
  show ?case
  proof (cases "g = []")
    case True
    then show ?thesis using c
      by (simp add: showNat.simps [of "digitVal c"] digitVal_less digitChar_digitVal)
  next
    case False
    then have hd: "hd g \<noteq> CHR ''0''" using snoc.prems(3) by (cases g) auto
    have g: "list_all isDigit g" using snoc.prems(2) by simp
    have pos: "0 < decimal g 0" using False g hd by (rule decimal_pos)
    have ih: "showNat (decimal g 0) = g" using snoc.IH False g hd by simp
    let ?v = "10 * decimal g 0 + digitVal c"
    have "\<not> ?v < 10" using pos by simp
    moreover have "?v div 10 = decimal g 0" "?v mod 10 = digitVal c"
      using digitVal_less [OF c] by simp_all
    ultimately have "showNat ?v = g @ [c]"
      using ih c by (simp add: showNat.simps [of ?v] digitChar_digitVal)
    then show ?thesis by (simp add: decimal_append)
  qed
qed

lemma parseOctet_Some: "parseOctet f = Some a \<Longrightarrow> showNat (unat a) = f"
proof -
  assume a: "parseOctet f = Some a"
  then have f: "f \<noteq> []" "list_all isDigit f" "length f = 1 \<or> hd f \<noteq> CHR ''0''"
      "decimal f 0 \<le> 255" "a = of_nat (decimal f 0)"
    by (auto simp: parseOctet_def split: if_splits)
  have "unat a = decimal f 0" using f(4,5) by (simp add: unat_of_nat)
  then show ?thesis using showNat_decimal [OF f(1,2,3)] by simp
qed

lemma ipString_ParseIP:
  assumes "ParseIP s \<noteq> IPnil"
  shows "ipString (ParseIP s) = s"
proof -
  from assms obtain a b c d where m: "map parseOctet (splitOn CHR ''.'' s []) = [Some a, Some b, Some c, Some d]"
    and ip: "ParseIP s = IPv4 a b c d"
    by (auto simp: ParseIP_def split: list.splits option.splits)
  from m obtain f1 f2 f3 f4 where fs: "splitOn CHR ''.'' s [] = [f1, f2, f3, f4]"
    and o: "parseOctet f1 = Some a" "parseOctet f2 = Some b" "parseOctet f3 = Some c" "parseOctet f4 = Some d"
    by (auto simp: map_eq_Cons_conv)
  have "joinWith CHR ''.'' (splitOn CHR ''.'' s []) = s" by (simp add: joinWith_splitOn)
  then have "s = f1 @ ''.'' @ f2 @ ''.'' @ f3 @ ''.'' @ f4" using fs by simp
  then show ?thesis using ip o by (simp add: parseOctet_Some)
qed

section \<open>The update of the slice\<close>

lemma replaceLoop_eq:
  "replaceLoop n b store =
     (n \<in> identity ` set store, map (\<lambda>r. if identity r = n then b else r) store)"
  by (induction store) (auto simp: identity_def)

lemma commit_eq:
  "commit n b store =
     (if n \<in> identity ` set store then map (\<lambda>r. if identity r = n then b else r) store
      else store @ [b])"
proof -
  have "n \<notin> identity ` set store \<Longrightarrow> map (\<lambda>r. if identity r = n then b else r) store = store"
    by (induction store) auto
  then show ?thesis by (auto simp: commit_def replaceLoop_eq)
qed

lemma identity_parsed: "IP b = ParseIP n \<Longrightarrow> ParseIP n \<noteq> IPnil \<Longrightarrow> identity b = n"
  by (simp add: identity_def ipString_ParseIP)

lemma identity_found:
  assumes "IP b = ParseIP n" "n \<in> identity ` set store"
  shows "identity b = n"
proof -
  from assms(2) obtain r :: BgpNeighbor where "ipString (IP r) = n"
    by (auto simp: identity_def)
  then have "ParseIP n = IP r" using ParseIP_ipString [of "IP r"] by simp
  then show ?thesis using assms(1) \<open>ipString (IP r) = n\<close> by (simp add: identity_def)
qed

lemma identities_commit:
  assumes "IP b = ParseIP n"
  shows "map identity (commit n b store) =
     (if n \<in> identity ` set store then map identity store else map identity store @ [identity b])"
proof (cases "n \<in> identity ` set store")
  case True
  have "identity b = n" using assms True by (rule identity_found)
  then have "map identity (map (\<lambda>r. if identity r = n then b else r) store) = map identity store"
    by (induction store) auto
  then show ?thesis using True by (simp add: commit_eq)
next
  case False
  then show ?thesis by (simp add: commit_eq)
qed

lemma commit_mem: "b \<in> set (commit n b store)"
  by (auto simp: commit_eq)

lemma commit_others:
  "i < length store \<Longrightarrow> identity (store ! i) \<noteq> n \<Longrightarrow> commit n b store ! i = store ! i"
  by (auto simp: commit_eq nth_append)

lemma commit_same:
  assumes "identity b = n" "r \<in> set (commit n b store)" "identity r = n"
  shows "r = b"
  using assms by (auto simp: commit_eq split: if_splits)

lemma header_chars: "bgpNeighborRegex line = Some a \<Longrightarrow> list_all isDigitOrDot a"
  by (auto simp: bgpNeighborRegex_def Let_def list_all_iff split: option.splits if_splits
      dest: set_takeWhileD)

lemma unparsed_not_stored:
  assumes "ParseIP n = IPnil" "list_all isDigitOrDot n"
  shows "n \<notin> identity ` set store"
proof
  assume "n \<in> identity ` set store"
  then obtain r :: BgpNeighbor where r: "ipString (IP r) = n"
    by (auto simp: identity_def)
  then have "IP r = IPnil" using ParseIP_ipString [of "IP r"] assms(1) by simp
  then have "n = ''<nil>''" using r by simp
  then show False using assms(2) by (simp add: isDigitOrDot_def isDigit_def)
qed

section \<open>The lines of a block\<close>

lemma joinWith_snoc: "ls \<noteq> [] \<Longrightarrow> joinWith sep (ls @ [l]) = joinWith sep ls @ sep # l"
proof (induction ls)
  case Nil
  then show ?case by simp
next
  case (Cons x xs)
  then show ?case by (cases "xs = []") (simp_all add: joinWith_Cons)
qed

lemma joinWith_last:
  "ls \<noteq> [] \<Longrightarrow> last ls \<noteq> [] \<Longrightarrow> joinWith sep ls \<noteq> [] \<and> last (joinWith sep ls) = last (last ls)"
proof (induction ls)
  case Nil
  then show ?case by simp
next
  case (Cons x xs)
  then show ?case by (cases "xs = []") (simp_all add: joinWith_Cons)
qed

lemma not_recognized_empty: "\<not> recognized []"
  by (simp add: recognized_def regex_defs)

lemma lines_of_joined:
  assumes "\<forall>l \<in> set ls. newline \<notin> set l"
  shows "filter recognized (Split (TrimSuffix (joinWith newline ls))) = filter recognized ls"
proof (cases "ls = []")
  case True
  then show ?thesis by (simp add: TrimSuffix_def Split_def not_recognized_empty)
next
  case False
  show ?thesis
  proof (cases "last ls = []")
    case nonempty: False
    have "last (last ls) \<in> set (last ls)" using nonempty by simp
    moreover have "last ls \<in> set ls" using False by simp
    ultimately have "last (last ls) \<noteq> newline" using assms by metis
    then have "TrimSuffix (joinWith newline ls) = joinWith newline ls"
      using joinWith_last [OF False nonempty, of newline] by (simp add: TrimSuffix_def)
    then show ?thesis using assms False by (simp add: Split_def splitOn_joinWith)
  next
    case True
    show ?thesis
    proof (cases "butlast ls = []")
      case single: True
      then have "ls = [[]]" using False True by (metis append_butlast_last_id append_Nil)
      then show ?thesis by (simp add: TrimSuffix_def Split_def)
    next
      case more: False
      have ls: "ls = butlast ls @ [[]]" using False True by (metis append_butlast_last_id)
      have "joinWith newline ls = joinWith newline (butlast ls) @ [newline]"
        using joinWith_snoc [OF more, of newline "[]"] ls by simp
      then have "TrimSuffix (joinWith newline ls) = joinWith newline (butlast ls)"
        by (simp add: TrimSuffix_def)
      moreover have "\<forall>l \<in> set (butlast ls). newline \<notin> set l"
        using assms by (meson in_set_butlastD)
      ultimately have "Split (TrimSuffix (joinWith newline ls)) = butlast ls"
        using more by (simp add: Split_def splitOn_joinWith)
      moreover have "filter recognized ls = filter recognized (butlast ls)"
        using ls not_recognized_empty by (metis append_Nil2 filter.simps filter_append)
      ultimately show ?thesis by simp
    qed
  qed
qed

lemma parseBGP_lines:
  assumes "\<forall>l \<in> set ls. newline \<notin> set l"
  shows "parseBGP (joinWith newline ls) store =
     (case parseLines ls (initState store) of Inl a \<Rightarrow> Inl a | Inr st \<Rightarrow> Inr (bgpNeighbors st))"
proof -
  have "parseLines (Split (TrimSuffix (joinWith newline ls))) (initState store) =
      parseLines (filter recognized ls) (initState store)"
    using parseLines_filter_recognized [OF consistent_initState,
        of "Split (TrimSuffix (joinWith newline ls))" store]
      lines_of_joined [OF assms] by simp
  also have "\<dots> = parseLines ls (initState store)"
    using parseLines_filter_recognized [OF consistent_initState, of ls store] by simp
  finally show ?thesis by (simp add: parseBGP_def)
qed

lemma parseBGP_lines_newline:
  assumes "\<forall>l \<in> set ls. newline \<notin> set l"
  shows "parseBGP (joinWith newline ls @ [newline]) store =
     (case parseLines ls (initState store) of Inl a \<Rightarrow> Inl a | Inr st \<Rightarrow> Inr (bgpNeighbors st))"
proof (cases "ls = []")
  case True
  then show ?thesis
    by (simp add: parseBGP_def TrimSuffix_def Split_def
        parseLine_unrecognized_id [OF consistent_initState not_recognized_empty])
next
  case False
  have "joinWith newline ls @ [newline] = joinWith newline (ls @ [[]])"
    using joinWith_snoc [OF False, of newline "[]"] by simp
  moreover have "\<forall>l \<in> set (ls @ [[]]). newline \<notin> set l" using assms by simp
  ultimately have "parseBGP (joinWith newline ls @ [newline]) store =
      (case parseLines (ls @ [[]]) (initState store) of
         Inl a \<Rightarrow> Inl a | Inr st \<Rightarrow> Inr (bgpNeighbors st))"
    using parseBGP_lines [of "ls @ [[]]" store] by simp
  moreover have "parseLines (ls @ [[]]) (initState store) = parseLines ls (initState store)"
    using parseLines_filter_recognized [OF consistent_initState, of "ls @ [[]]" store]
      parseLines_filter_recognized [OF consistent_initState, of ls store]
    by (simp add: not_recognized_empty)
  ultimately show ?thesis by simp
qed

section \<open>Unrecognised lines\<close>

lemma filter_insertLine:
  "\<not> recognized l \<Longrightarrow> filter recognized (insertLine i l ls) = filter recognized ls"
proof -
  assume "\<not> recognized l"
  then have "filter recognized (insertLine i l ls) =
      filter recognized (take i ls) @ filter recognized (drop i ls)"
    by (simp add: insertLine_def)
  also have "\<dots> = filter recognized ls"
    by (metis append_take_drop_id filter_append)
  finally show ?thesis .
qed

lemma filter_insertLines:
  "\<forall>(i, l) \<in> set ins. \<not> recognized l \<and> newline \<notin> set l \<Longrightarrow>
     filter recognized (insertLines ins ls) = filter recognized ls"
  by (induction ins arbitrary: ls) (auto simp: filter_insertLine)

lemma newline_insertLines:
  "\<forall>(i, l) \<in> set ins. \<not> recognized l \<and> newline \<notin> set l \<Longrightarrow>
     \<forall>l \<in> set ls. newline \<notin> set l \<Longrightarrow>
     \<forall>l \<in> set (insertLines ins ls). newline \<notin> set l"
proof (induction ins arbitrary: ls)
  case Nil
  then show ?case by simp
next
  case (Cons a ins)
  obtain i l where a: "a = (i, l)" by (cases a)
  have "\<forall>x \<in> set (insertLine i l ls). newline \<notin> set x"
    using Cons.prems a by (auto simp: insertLine_def dest: in_set_takeD in_set_dropD)
  then show ?case using Cons a by simp
qed

section \<open>Where the slice changes\<close>

lemma parseLine_store:
  assumes "parseLine line st = Inr st'"
  shows "(bgpConnectionsEstablishedDroppedRegex line = None \<or> neigh st = [] \<longrightarrow>
            bgpNeighbors st' = bgpNeighbors st)
     \<and> (\<forall>e d. bgpConnectionsEstablishedDroppedRegex line = Some (e, d) \<and> neigh st \<noteq> [] \<longrightarrow>
            (\<exists>b. bgpNeigh st' = Some b \<and> IP b = ParseIP (neigh st)
               \<and> ConnectionsEstablished b = ParseFloat e \<and> ConnectionsDropped b = ParseFloat d
               \<and> neigh st' = neigh st
               \<and> bgpNeighbors st' = commit (neigh st) b (bgpNeighbors st)))"
proof (cases "bgpConnectionsEstablishedDroppedRegex line")
  case None
  then show ?thesis using assms
    by (auto simp: parseLine_def Let_def split: option.splits if_splits)
next
  case (Some ed)
  obtain e d where ed: "ed = (e, d)" by (cases ed)
  have c: "bgpConnectionsEstablishedDroppedRegex line = Some (e, d)" using Some ed by simp
  show ?thesis
  proof (cases "neigh st = []")
    case True
    then show ?thesis using assms counters_excludes(1) [OF c] by (simp add: parseLine_closed)
  next
    case False
    then obtain b where b: "bgpNeigh st = Some b"
      using assms counters_excludes(1) [OF c]
      by (cases "bgpNeigh st") (auto simp: parseLine_def)
    show ?thesis using assms c False parseLine_counters [OF c False b] by auto
  qed
qed

lemma parseLine_neigh_closed:
  assumes "parseLine line st = Inr st'" "bgpNeighborRegex line = None"
  shows "neigh st' = neigh st"
  using assms by (auto simp: parseLine_def Let_def split: option.splits if_splits)

lemma parseLine_commitOf:
  assumes "parseLine line st = Inr st'"
  shows "bgpNeighbors st' = applyCommits (commitOf line st') (bgpNeighbors st)"
proof (cases "bgpConnectionsEstablishedDroppedRegex line")
  case None
  then show ?thesis using parseLine_store [OF assms] by (simp add: commitOf_def applyCommits_def)
next
  case (Some ed)
  obtain e d where c: "bgpConnectionsEstablishedDroppedRegex line = Some (e, d)"
    using Some by (cases ed) simp
  have n: "neigh st' = neigh st"
    using assms counters_excludes(1) [OF c] by (rule parseLine_neigh_closed)
  show ?thesis
  proof (cases "neigh st = []")
    case True
    then show ?thesis using parseLine_store [OF assms] n
      by (simp add: commitOf_def applyCommits_def)
  next
    case False
    then show ?thesis using parseLine_store [OF assms] c n
      by (auto simp: commitOf_def applyCommits_def)
  qed
qed

lemma applyCommits_append: "applyCommits (xs @ ys) store = applyCommits ys (applyCommits xs store)"
  by (simp add: applyCommits_def)

lemma commitTrace_sound:
  "parseLines ls st = Inr st' \<Longrightarrow>
     bgpNeighbors st' = applyCommits (commitTrace ls st) (bgpNeighbors st)"
proof (induction ls arbitrary: st)
  case Nil
  then show ?case by (simp add: applyCommits_def)
next
  case (Cons l ls)
  from Cons.prems obtain st1 where s1: "parseLine l st = Inr st1" "parseLines ls st1 = Inr st'"
    by (auto split: sum.splits)
  show ?case
    using Cons.IH [OF s1(2)] parseLine_commitOf [OF s1(1)] s1(1)
    by (simp add: applyCommits_append)
qed


lemma commitOf_unrecognized: "\<not> recognized l \<Longrightarrow> commitOf l st = []"
  by (simp add: commitOf_def recognized_def)

lemma commitTrace_filter_recognized:
  "consistent st \<Longrightarrow> commitTrace ls st = commitTrace (filter recognized ls) st"
proof (induction ls arbitrary: st)
  case Nil
  then show ?case by simp
next
  case (Cons l ls)
  show ?case
  proof (cases "recognized l")
    case True
    from parseLine_consistent [OF Cons.prems] obtain st1
      where "parseLine l st = Inr st1" "consistent st1" by blast
    then show ?thesis using True Cons.IH [of st1] by simp
  next
    case False
    then show ?thesis
      using parseLine_unrecognized_id [OF Cons.prems False] Cons.IH [OF Cons.prems]
      by (simp add: commitOf_unrecognized)
  qed
qed



lemma filter_lines:
  "filter recognized (Split (TrimSuffix s)) = filter recognized (Split s)"
proof -
  have "joinWith newline (Split s) = s" by (simp add: Split_def joinWith_splitOn)
  moreover have "\<forall>l \<in> set (Split s). newline \<notin> set l"
    using splitOn_no_sep [of newline "[]" s] by (simp add: Split_def)
  ultimately show ?thesis using lines_of_joined [of "Split s"] by simp
qed



section \<open>The slice only grows\<close>

lemma extends_refl: "extends store store"
  by (simp add: extends_def)

lemma extends_trans:
  assumes "extends a b" "extends b c"
  shows "extends a c"
proof -
  have "take (length a) (map identity c) = take (length a) (take (length b) (map identity c))"
    using assms(1) by (simp add: extends_def min_def)
  also have "\<dots> = map identity a" using assms by (simp add: extends_def)
  finally show ?thesis using assms by (simp add: extends_def)
qed

lemma identity_unparsed: "IP b = ParseIP n \<Longrightarrow> ParseIP n = IPnil \<Longrightarrow> identity b = ''<nil>''"
  by (simp add: identity_def)

lemma extends_commit:
  assumes "IP b = ParseIP n"
  shows "extends store (commit n b store)"
proof (cases "n \<in> identity ` set store")
  case True
  then have "map identity (commit n b store) = map identity store"
    using identities_commit [OF assms, of store] by simp
  moreover from this have "length (commit n b store) = length store"
    by (metis length_map)
  ultimately show ?thesis by (simp add: extends_def distinctParsed_def)
next
  case False
  then have m: "map identity (commit n b store) = map identity store @ [identity b]"
    using identities_commit [OF assms, of store] by simp
  then have l: "length (commit n b store) = Suc (length store)"
    by (metis length_map length_append_singleton)
  have d: "distinctParsed store \<Longrightarrow> distinctParsed (commit n b store)"
  proof (cases "ParseIP n = IPnil")
    case True
    then show "distinctParsed store \<Longrightarrow> distinctParsed (commit n b store)"
      using m identity_unparsed [OF assms True] by (simp add: distinctParsed_def)
  next
    case parsed: False
    have "identity b = n" using assms parsed by (rule identity_parsed)
    then show "distinctParsed store \<Longrightarrow> distinctParsed (commit n b store)"
      using m False by (auto simp: distinctParsed_def)
  qed
  show ?thesis using m l d by (simp add: extends_def)
qed

lemma extends_parseLine:
  assumes "parseLine line st = Inr st'"
  shows "extends (bgpNeighbors st) (bgpNeighbors st')"
proof (cases "bgpConnectionsEstablishedDroppedRegex line = None \<or> neigh st = []")
  case True
  then show ?thesis using parseLine_store [OF assms] by (simp add: extends_refl)
next
  case False
  then obtain e d where "bgpConnectionsEstablishedDroppedRegex line = Some (e, d)" "neigh st \<noteq> []"
    by auto
  then obtain b where "IP b = ParseIP (neigh st)"
      "bgpNeighbors st' = commit (neigh st) b (bgpNeighbors st)"
    using parseLine_store [OF assms] by blast
  then show ?thesis using extends_commit [of b "neigh st" "bgpNeighbors st"] by simp
qed

lemma extends_parseLines:
  "parseLines ls st = Inr st' \<Longrightarrow> extends (bgpNeighbors st) (bgpNeighbors st')"
proof (induction ls arbitrary: st)
  case Nil
  then show ?case by (simp add: extends_refl)
next
  case (Cons l ls)
  from Cons.prems obtain st1 where s1: "parseLine l st = Inr st1" "parseLines ls st1 = Inr st'"
    by (auto split: sum.splits)
  show ?case using extends_parseLine [OF s1(1)] Cons.IH [OF s1(2)] by (rule extends_trans)
qed

lemma parseBGP_extends: "\<exists>store'. parseBGP s store = Inr store' \<and> extends store store'"
proof -
  from parseLines_consistent [OF consistent_initState, of "Split (TrimSuffix s)" store]
  obtain st' where s: "parseLines (Split (TrimSuffix s)) (initState store) = Inr st'" by blast
  have "extends (bgpNeighbors (initState store)) (bgpNeighbors st')"
    using s by (rule extends_parseLines)
  then show ?thesis using s by (simp add: parseBGP_def initState_def)
qed

lemma pollLoop_extends:
  "\<forall>r \<in> set rs. err r = None \<Longrightarrow> \<exists>store'. pollLoop rs store = Inr store' \<and> extends store store'"
proof (induction rs arbitrary: store)
  case Nil
  then show ?case by (simp add: extends_refl)
next
  case (Cons r rs)
  have c: "pollCycle r store = parseBGP (sout r) store"
    using Cons.prems by (simp add: pollCycle_def getBgpNeighbors_def)
  from parseBGP_extends [of "sout r" store] obtain s1
    where s1: "parseBGP (sout r) store = Inr s1" "extends store s1" by blast
  from Cons.IH [of s1] Cons.prems obtain s2
    where s2: "pollLoop rs s1 = Inr s2" "extends s1 s2" by auto
  have "extends store s2" using s1(2) s2(2) by (rule extends_trans)
  then show ?case using c s1(1) s2(1) by simp
qed

lemma commitOf_key:
  assumes "parseLine l st = Inr st'" "(n, b) \<in> set (commitOf l st')"
  shows "IP b = ParseIP n"
proof -
  have m: "commitOf l st' \<noteq> []" using assms(2) by auto
  then have c: "bgpConnectionsEstablishedDroppedRegex l \<noteq> None" and n: "neigh st' \<noteq> []"
    by (simp_all add: commitOf_def split: if_splits)
  obtain b0 where b0: "bgpNeigh st' = Some b0"
    using m c n by (cases "bgpNeigh st'") (simp_all add: commitOf_def)
  have nb: "n = neigh st'" "b = b0"
    using assms(2) c n b0 by (simp_all add: commitOf_def)
  have b: "bgpNeigh st' = Some b" using b0 nb by simp
  obtain e d where ed: "bgpConnectionsEstablishedDroppedRegex l = Some (e, d)"
    using c by (cases "bgpConnectionsEstablishedDroppedRegex l") auto
  have "neigh st' = neigh st"
    using assms(1) counters_excludes(1) [OF ed] by (rule parseLine_neigh_closed)
  then show ?thesis using parseLine_store [OF assms(1)] ed n nb(1) b by auto
qed

lemma commitTrace_keys:
  "(n, b) \<in> set (commitTrace ls st) \<Longrightarrow> IP b = ParseIP n"
proof (induction ls arbitrary: st)
  case Nil
  then show ?case by simp
next
  case (Cons l ls)
  then show ?case
    by (cases "parseLine l st") (auto dest: commitOf_key)
qed

lemma length_commit: "length store \<le> length (commit n b store)"
  by (simp add: commit_eq)

lemma identity_commit_nth:
  assumes "IP b = ParseIP n" "i < length store"
  shows "identity (commit n b store ! i) = identity (store ! i)"
proof -
  have "take (length store) (map identity (commit n b store)) = map identity store"
    using extends_commit [OF assms(1), of store] by (simp add: extends_def)
  then have "take (length store) (map identity (commit n b store)) ! i = map identity store ! i"
    by simp
  then show ?thesis using assms(2) length_commit [of store n b] by simp
qed

lemma applyCommits_Cons: "applyCommits ((n, b) # cs) store = applyCommits cs (commit n b store)"
  by (simp add: applyCommits_def)

lemma applyCommits_untouched:
  "\<forall>(n, b) \<in> set cs. IP b = ParseIP n \<Longrightarrow> i < length store \<Longrightarrow>
     identity (store ! i) \<notin> fst ` set cs \<Longrightarrow> applyCommits cs store ! i = store ! i"
proof (induction cs arbitrary: store)
  case Nil
  then show ?case by (simp add: applyCommits_def)
next
  case (Cons c cs)
  obtain n b where c: "c = (n, b)" by (cases c)
  have k: "IP b = ParseIP n" using Cons.prems(1) c by simp
  have ne: "identity (store ! i) \<noteq> n" using Cons.prems(3) c by auto
  have same: "commit n b store ! i = store ! i" using Cons.prems(2) ne by (rule commit_others)
  have "applyCommits cs (commit n b store) ! i = commit n b store ! i"
  proof (rule Cons.IH)
    show "\<forall>(n, b) \<in> set cs. IP b = ParseIP n" using Cons.prems(1) by simp
    show "i < length (commit n b store)" using Cons.prems(2) length_commit [of store n b] by simp
    show "identity (commit n b store ! i) \<notin> fst ` set cs"
      using Cons.prems(3) same by auto
  qed
  then show ?case using same c by (simp add: applyCommits_Cons)
qed

lemma parsed_not_nil: "ParseIP n \<noteq> IPnil \<Longrightarrow> n \<noteq> ''<nil>''"
  using ParseIP_ipString [of IPnil] by auto

lemma commit_keeps_winner:
  assumes "IP b' = ParseIP n'" "n' \<noteq> n" "ParseIP n \<noteq> IPnil" "identity b = n"
    and "b \<in> set store \<and> (\<forall>r \<in> set store. identity r = n \<longrightarrow> r = b)"
  shows "b \<in> set (commit n' b' store) \<and> (\<forall>r \<in> set (commit n' b' store). identity r = n \<longrightarrow> r = b)"
proof -
  have "identity b' \<noteq> n"
  proof (cases "ParseIP n' = IPnil")
    case True
    then show ?thesis using identity_unparsed [OF assms(1)] parsed_not_nil [OF assms(3)] by simp
  next
    case False
    then show ?thesis using identity_parsed [OF assms(1)] assms(2) by simp
  qed
  then show ?thesis using assms(2,4,5) by (auto simp: commit_eq)
qed

lemma applyCommits_keeps_winner:
  "\<forall>(n', b') \<in> set cs. IP b' = ParseIP n' \<Longrightarrow> n \<notin> fst ` set cs \<Longrightarrow>
     ParseIP n \<noteq> IPnil \<Longrightarrow> identity b = n \<Longrightarrow>
     b \<in> set store \<and> (\<forall>r \<in> set store. identity r = n \<longrightarrow> r = b) \<Longrightarrow>
     b \<in> set (applyCommits cs store) \<and> (\<forall>r \<in> set (applyCommits cs store). identity r = n \<longrightarrow> r = b)"
proof (induction cs arbitrary: store)
  case Nil
  then show ?case by (simp add: applyCommits_def)
next
  case (Cons c cs)
  obtain n' b' where c: "c = (n', b')" by (cases c)
  have k: "IP b' = ParseIP n'" using Cons.prems(1) c by simp
  have ne: "n' \<noteq> n" using Cons.prems(2) c by auto
  have step: "b \<in> set (commit n' b' store) \<and> (\<forall>r \<in> set (commit n' b' store). identity r = n \<longrightarrow> r = b)"
    using k ne Cons.prems(3,4,5) by (rule commit_keeps_winner)
  have "b \<in> set (applyCommits cs (commit n' b' store))
      \<and> (\<forall>r \<in> set (applyCommits cs (commit n' b' store)). identity r = n \<longrightarrow> r = b)"
  proof (rule Cons.IH)
    show "\<forall>(n', b') \<in> set cs. IP b' = ParseIP n'" using Cons.prems(1) by simp
    show "n \<notin> fst ` set cs" using Cons.prems(2) by simp
    show "ParseIP n \<noteq> IPnil" by (rule Cons.prems(3))
    show "identity b = n" by (rule Cons.prems(4))
    show "b \<in> set (commit n' b' store) \<and> (\<forall>r \<in> set (commit n' b' store). identity r = n \<longrightarrow> r = b)"
      by (rule step)
  qed
  then show ?case using c by (simp add: applyCommits_Cons)
qed

lemma last_commit_wins:
  assumes keys: "\<forall>(n, b) \<in> set (xs @ (n, b) # ys). IP b = ParseIP n"
    and last: "n \<notin> fst ` set ys" and parsed: "ParseIP n \<noteq> IPnil"
  shows "b \<in> set (applyCommits (xs @ (n, b) # ys) store)
     \<and> (\<forall>r \<in> set (applyCommits (xs @ (n, b) # ys) store). identity r = n \<longrightarrow> r = b)"
proof -
  have k: "IP b = ParseIP n" using keys by simp
  have id: "identity b = n" using k parsed by (rule identity_parsed)
  let ?s1 = "applyCommits xs store"
  have now: "b \<in> set (commit n b ?s1) \<and> (\<forall>r \<in> set (commit n b ?s1). identity r = n \<longrightarrow> r = b)"
    using commit_mem [of b n ?s1] commit_same [OF id] by blast
  have ys: "\<forall>(n', b') \<in> set ys. IP b' = ParseIP n'" using keys by simp
  have "applyCommits (xs @ (n, b) # ys) store = applyCommits ys (commit n b ?s1)"
    by (simp add: applyCommits_append applyCommits_Cons)
  then show ?thesis using applyCommits_keeps_winner [OF ys last parsed id now] by simp
qed

lemma parseBGP_trace:
  "\<exists>store'. parseBGP s store = Inr store' \<and> store' = applyCommits (committedRecords s store) store"
proof -
  from parseLines_consistent [OF consistent_initState, of "Split (TrimSuffix s)" store]
  obtain st' where s: "parseLines (Split (TrimSuffix s)) (initState store) = Inr st'" by blast
  show ?thesis using s commitTrace_sound [OF s]
    by (simp add: parseBGP_def committedRecords_def initState_def)
qed

section \<open>Blocks of complete entries\<close>









section \<open>Failure of the vtysh command\<close>

text \<open>
  C1 (as amended). When the command returns an error, \<^verbatim>\<open>getBgpNeighbors\<close> logs the failure with
  \<^verbatim>\<open>log.Fatalf\<close>, which ends the process: the round stops before \<^verbatim>\<open>parseBGP\<close> runs, whatever
  the slice holds, and no later round of the loop takes place.
\<close>

theorem acquisition_failure_is_fatal:
  assumes "err r = Some e"
  shows "pollCycle r store = Inl (Fatal (''Failed to execute vtysh command: '' @ e @ [newline]))
       \<and> pollLoop (r # rs) store = Inl (Fatal (''Failed to execute vtysh command: '' @ e @ [newline]))"
  using assms by (simp add: pollCycle_def getBgpNeighbors_def)

theorem acquisition_failure_is_fatal_witness:
  "pollCycle \<lparr>sout = [], serr = ''vtysh: not found'', err = Some ''exit status 127''\<rparr> []
     = Inl (Fatal (''Failed to execute vtysh command: exit status 127'' @ [newline]))
   \<and> pollLoop [\<lparr>sout = [], serr = ''vtysh: not found'', err = Some ''exit status 127''\<rparr>] []
     = Inl (Fatal (''Failed to execute vtysh command: exit status 127'' @ [newline]))"
  using acquisition_failure_is_fatal
     [of "\<lparr>sout = [], serr = ''vtysh: not found'', err = Some ''exit status 127''\<rparr>"
         "''exit status 127''" "[]" "[]"]
  by simp

text \<open>
  C1 as stated fails: with one record stored, a round whose command fails does not skip to the
  next round, the loop ends with the fatal exit although the following command would succeed.
\<close>

theorem acquisition_failure_counterexample:
  "pollLoop [\<lparr>sout = [], serr = [], err = Some ''exit status 1''\<rparr>,
             \<lparr>sout = [], serr = [], err = None\<rparr>]
     [\<lparr>IP = IPv4 10 0 0 1, State = Finite 6, AcceptedPrefixes = Finite 5,
       ConnectionsEstablished = Finite 12, ConnectionsDropped = Finite 1\<rparr>]
   = Inl (Fatal (''Failed to execute vtysh command: exit status 1'' @ [newline]))"
  by (simp add: pollCycle_def getBgpNeighbors_def)

section \<open>A block of complete entries\<close>






section \<open>A session-state line with an unknown word\<close>

text \<open>
  C3 (as amended). For an open record and a session-state line whose captured word is none of
  Idle, Connect, Active, Opensent, Openconfirm, Established, the line sets the record's state
  to 0, whatever it was before; the other fields keep their values and the slice is untouched.
  The state is therefore unchanged only where it was 0 already, as in a fresh record.
\<close>

theorem unknown_state_word_sets_zero:
  assumes "bgpStateRegex line = Some w"
    and "w \<notin> {''Idle'', ''Connect'', ''Active'', ''Opensent'', ''Openconfirm'', ''Established''}"
    and "neigh st \<noteq> []" and "bgpNeigh st = Some b"
  shows "parseLine line st =
     Inr (st\<lparr>bgpNeigh := Some (b\<lparr>IP := ParseIP (neigh st), State := Finite 0\<rparr>)\<rparr>)"
proof -
  have "stateOf w = Finite 0" using assms(2) by (simp add: stateOf_def)
  then show ?thesis using parseLine_state [OF assms(1,3,4)] by simp
qed

theorem unknown_state_word_sets_zero_witness:
  "parseLine ''  BGP state = Clearing, up for 3d''
     \<lparr>neigh = ''10.0.0.1'',
      bgpNeigh = Some \<lparr>IP = IPv4 10 0 0 1, State = Finite 6, AcceptedPrefixes = Finite 5,
        ConnectionsEstablished = Finite 0, ConnectionsDropped = Finite 0\<rparr>,
      bgpNeighbors = []\<rparr>
   = Inr \<lparr>neigh = ''10.0.0.1'',
      bgpNeigh = Some \<lparr>IP = IPv4 10 0 0 1, State = Finite 0, AcceptedPrefixes = Finite 5,
        ConnectionsEstablished = Finite 0, ConnectionsDropped = Finite 0\<rparr>,
      bgpNeighbors = []\<rparr>"
proof -
  have h1: "bgpStateRegex ''  BGP state = Clearing, up for 3d'' = Some ''Clearing''"
    by (simp add: regex_defs)
  have h2: "''Clearing'' \<notin> {''Idle'', ''Connect'', ''Active'', ''Opensent'', ''Openconfirm'', ''Established''}"
    by simp
  have h3: "ParseIP ''10.0.0.1'' = IPv4 10 0 0 1"
    by (simp add: value_defs regex_defs)
  show ?thesis
    using unknown_state_word_sets_zero [OF h1 h2, of
        "\<lparr>neigh = ''10.0.0.1'',
          bgpNeigh = Some \<lparr>IP = IPv4 10 0 0 1, State = Finite 6, AcceptedPrefixes = Finite 5,
            ConnectionsEstablished = Finite 0, ConnectionsDropped = Finite 0\<rparr>,
          bgpNeighbors = []\<rparr>"
        "\<lparr>IP = IPv4 10 0 0 1, State = Finite 6, AcceptedPrefixes = Finite 5,
            ConnectionsEstablished = Finite 0, ConnectionsDropped = Finite 0\<rparr>"] h3
    by simp
qed

text \<open>
  C3 as stated fails: after a header and an Established line the state is 6; a further
  session-state line with the word Clearing leaves it at 0, not at 6.
\<close>

theorem unknown_state_word_counterexample:
  "parseLines [''BGP neighbor is 10.0.0.1, remote AS 65001'',
               ''  BGP state = Established, up for 3d''] (initState [])
   = Inr \<lparr>neigh = ''10.0.0.1'',
       bgpNeigh = Some \<lparr>IP = IPv4 10 0 0 1, State = Finite 6, AcceptedPrefixes = Finite 0,
         ConnectionsEstablished = Finite 0, ConnectionsDropped = Finite 0\<rparr>,
       bgpNeighbors = []\<rparr>
   \<and> parseLines [''BGP neighbor is 10.0.0.1, remote AS 65001'',
               ''  BGP state = Established, up for 3d'',
               ''  BGP state = Clearing, up for 3d''] (initState [])
   = Inr \<lparr>neigh = ''10.0.0.1'',
       bgpNeigh = Some \<lparr>IP = IPv4 10 0 0 1, State = Finite 0, AcceptedPrefixes = Finite 0,
         ConnectionsEstablished = Finite 0, ConnectionsDropped = Finite 0\<rparr>,
       bgpNeighbors = []\<rparr>"
  by (simp add: parse_defs regex_defs value_defs)

section \<open>Insert or replace\<close>

text \<open>
  C5 (as amended). For every state of the slice and every committed record whose address was
  parsed (its IP is \<^verbatim>\<open>net.ParseIP(neigh)\<close> and not nil), the identity of the record is the
  captured address; the commit appends the record when no stored record has this identity,
  and otherwise puts the whole record in the place of every stored record with this identity
  and leaves the others as they are. Afterwards every stored record with this identity is the
  new record, in all its fields.
\<close>

theorem upsert_insert_or_replace:
  assumes "IP b = ParseIP n" and "ParseIP n \<noteq> IPnil"
  shows "identity b = n
     \<and> (identity b \<notin> identity ` set store \<longrightarrow> commit n b store = store @ [b])
     \<and> (identity b \<in> identity ` set store \<longrightarrow>
          commit n b store = map (\<lambda>r. if identity r = identity b then b else r) store)
     \<and> (\<forall>r \<in> set (commit n b store). identity r = identity b \<longrightarrow> r = b)"
proof -
  have k: "identity b = n" using assms by (rule identity_parsed)
  show ?thesis using k commit_same [OF k] by (auto simp: commit_eq)
qed

theorem upsert_insert_or_replace_witness:
  "commit ''10.0.0.1''
      \<lparr>IP = IPv4 10 0 0 1, State = Finite 6, AcceptedPrefixes = Finite 7,
        ConnectionsEstablished = Finite 13, ConnectionsDropped = Finite 2\<rparr>
      [\<lparr>IP = IPv4 10 0 0 1, State = Finite 3, AcceptedPrefixes = Finite 5,
        ConnectionsEstablished = Finite 12, ConnectionsDropped = Finite 1\<rparr>,
       \<lparr>IP = IPv4 10 0 0 2, State = Finite 6, AcceptedPrefixes = Finite 9,
        ConnectionsEstablished = Finite 4, ConnectionsDropped = Finite 0\<rparr>]
   = [\<lparr>IP = IPv4 10 0 0 1, State = Finite 6, AcceptedPrefixes = Finite 7,
        ConnectionsEstablished = Finite 13, ConnectionsDropped = Finite 2\<rparr>,
      \<lparr>IP = IPv4 10 0 0 2, State = Finite 6, AcceptedPrefixes = Finite 9,
        ConnectionsEstablished = Finite 4, ConnectionsDropped = Finite 0\<rparr>]"
proof -
  have h1: "IP \<lparr>IP = IPv4 10 0 0 1, State = Finite 6, AcceptedPrefixes = Finite 7,
        ConnectionsEstablished = Finite 13, ConnectionsDropped = Finite 2\<rparr> = ParseIP ''10.0.0.1''"
    by (simp add: value_defs regex_defs)
  have h2: "ParseIP ''10.0.0.1'' \<noteq> IPnil"
    by (simp add: value_defs regex_defs)
  show ?thesis
    using upsert_insert_or_replace [OF h1 h2, of
      "[\<lparr>IP = IPv4 10 0 0 1, State = Finite 3, AcceptedPrefixes = Finite 5,
        ConnectionsEstablished = Finite 12, ConnectionsDropped = Finite 1\<rparr>,
       \<lparr>IP = IPv4 10 0 0 2, State = Finite 6, AcceptedPrefixes = Finite 9,
        ConnectionsEstablished = Finite 4, ConnectionsDropped = Finite 0\<rparr>]"]
    by (simp add: identity_def value_defs)
qed

text \<open>
  C5 as stated fails for a record with an address that does not parse: its identity, the nil
  address, is present in the slice, yet the commit appends a second record with that identity
  instead of replacing the first.
\<close>

theorem upsert_unparseable_counterexample:
  "parseBGP (''BGP neighbor is 10.0.0, remote AS 65001'' @ [newline] @
             ''  Connections established 4; dropped 3'')
     [\<lparr>IP = IPnil, State = Finite 0, AcceptedPrefixes = Finite 0,
        ConnectionsEstablished = Finite 3, ConnectionsDropped = Finite 2\<rparr>]
   = Inr [\<lparr>IP = IPnil, State = Finite 0, AcceptedPrefixes = Finite 0,
        ConnectionsEstablished = Finite 3, ConnectionsDropped = Finite 2\<rparr>,
          \<lparr>IP = IPnil, State = Finite 0, AcceptedPrefixes = Finite 0,
        ConnectionsEstablished = Finite 4, ConnectionsDropped = Finite 3\<rparr>]"
  by (simp add: parse_defs regex_defs value_defs)

section \<open>After a commit\<close>

text \<open>
  C6 (as amended). A commit does not clear the in-progress record: after a connection-counters
  line for an open record, \<^verbatim>\<open>neigh\<close> and the record are as they were, with the counters set.
  Without a header in between, a following accepted-prefixes line still updates the record and
  a following connection-counters line commits it again under the same identity.
\<close>

theorem record_stays_open_after_commit:
  assumes "bgpConnectionsEstablishedDroppedRegex c = Some (e, d)"
    and "neigh st \<noteq> []" and "bgpNeigh st = Some b"
    and "bgpAcceptedPrefixesRegex l = Some p"
    and "bgpConnectionsEstablishedDroppedRegex c' = Some (e', d')"
  shows "parseLine c st =
       Inr (st\<lparr>bgpNeigh := Some (b\<lparr>IP := ParseIP (neigh st),
                   ConnectionsEstablished := ParseFloat e, ConnectionsDropped := ParseFloat d\<rparr>),
               bgpNeighbors := commit (neigh st)
                   (b\<lparr>IP := ParseIP (neigh st),
                      ConnectionsEstablished := ParseFloat e, ConnectionsDropped := ParseFloat d\<rparr>)
                   (bgpNeighbors st)\<rparr>)
     \<and> parseLines [c, l, c'] st =
       Inr (st\<lparr>bgpNeigh := Some (b\<lparr>IP := ParseIP (neigh st), AcceptedPrefixes := ParseFloat p,
                   ConnectionsEstablished := ParseFloat e', ConnectionsDropped := ParseFloat d'\<rparr>),
               bgpNeighbors := commit (neigh st)
                   (b\<lparr>IP := ParseIP (neigh st), AcceptedPrefixes := ParseFloat p,
                      ConnectionsEstablished := ParseFloat e', ConnectionsDropped := ParseFloat d'\<rparr>)
                   (commit (neigh st)
                      (b\<lparr>IP := ParseIP (neigh st),
                         ConnectionsEstablished := ParseFloat e, ConnectionsDropped := ParseFloat d\<rparr>)
                      (bgpNeighbors st))\<rparr>)"
  using assms
  by (cases b) (simp add: parseLine_counters parseLine_prefixes)

theorem record_stays_open_after_commit_witness:
  "parseLines [''  Connections established 3; dropped 2'', ''  7 accepted prefixes'',
               ''  Connections established 4; dropped 3'']
     \<lparr>neigh = ''10.0.0.1'',
      bgpNeigh = Some \<lparr>IP = IPv4 10 0 0 1, State = Finite 6, AcceptedPrefixes = Finite 5,
        ConnectionsEstablished = Finite 0, ConnectionsDropped = Finite 0\<rparr>,
      bgpNeighbors = []\<rparr>
   = Inr \<lparr>neigh = ''10.0.0.1'',
      bgpNeigh = Some \<lparr>IP = IPv4 10 0 0 1, State = Finite 6, AcceptedPrefixes = Finite 7,
        ConnectionsEstablished = Finite 4, ConnectionsDropped = Finite 3\<rparr>,
      bgpNeighbors = [\<lparr>IP = IPv4 10 0 0 1, State = Finite 6, AcceptedPrefixes = Finite 7,
        ConnectionsEstablished = Finite 4, ConnectionsDropped = Finite 3\<rparr>]\<rparr>"
proof -
  have h1: "bgpConnectionsEstablishedDroppedRegex ''  Connections established 3; dropped 2''
      = Some (''3'', ''2'')"
    by (simp add: regex_defs)
  have h2: "neigh \<lparr>neigh = ''10.0.0.1'',
      bgpNeigh = Some \<lparr>IP = IPv4 10 0 0 1, State = Finite 6, AcceptedPrefixes = Finite 5,
        ConnectionsEstablished = Finite 0, ConnectionsDropped = Finite 0\<rparr>,
      bgpNeighbors = []\<rparr> \<noteq> []"
    by simp
  have h3: "bgpNeigh \<lparr>neigh = ''10.0.0.1'',
      bgpNeigh = Some \<lparr>IP = IPv4 10 0 0 1, State = Finite 6, AcceptedPrefixes = Finite 5,
        ConnectionsEstablished = Finite 0, ConnectionsDropped = Finite 0\<rparr>,
      bgpNeighbors = []\<rparr> = Some \<lparr>IP = IPv4 10 0 0 1, State = Finite 6, AcceptedPrefixes = Finite 5,
        ConnectionsEstablished = Finite 0, ConnectionsDropped = Finite 0\<rparr>"
    by simp
  have h4: "bgpAcceptedPrefixesRegex ''  7 accepted prefixes'' = Some ''7''"
    by (simp add: regex_defs)
  have h5: "bgpConnectionsEstablishedDroppedRegex ''  Connections established 4; dropped 3''
      = Some (''4'', ''3'')"
    by (simp add: regex_defs)
  note t = record_stays_open_after_commit [OF h1 h2 h3 h4 h5, THEN conjunct2]
  show ?thesis
    by (subst t) (simp add: commit_def value_defs regex_defs)
qed

text \<open>
  C6 as stated fails: with no header after the first commit, the accepted-prefixes line and
  the second connection-counters line change what is stored for 10.0.0.1.
\<close>

theorem updates_after_commit_counterexample:
  "parseBGP (''BGP neighbor is 10.0.0.1, remote AS 65001'' @ [newline] @
             ''  Connections established 3; dropped 2'') []
   = Inr [\<lparr>IP = IPv4 10 0 0 1, State = Finite 0, AcceptedPrefixes = Finite 0,
        ConnectionsEstablished = Finite 3, ConnectionsDropped = Finite 2\<rparr>]
   \<and> parseBGP (''BGP neighbor is 10.0.0.1, remote AS 65001'' @ [newline] @
             ''  Connections established 3; dropped 2'' @ [newline] @
             ''  7 accepted prefixes'' @ [newline] @
             ''  Connections established 4; dropped 3'') []
   = Inr [\<lparr>IP = IPv4 10 0 0 1, State = Finite 0, AcceptedPrefixes = Finite 7,
        ConnectionsEstablished = Finite 4, ConnectionsDropped = Finite 3\<rparr>]"
  by (simp add: parse_defs regex_defs value_defs)

section \<open>A header with an address that does not parse\<close>

text \<open>
  C7 (as amended). A header line whose captured address fails to parse is a header all the
  same: it opens an in-progress record, whose IP is nil, and a connection-counters line after
  it appends this record to the slice, whatever the slice holds. Nothing fails on the way.
\<close>

theorem unparseable_header_opens_record:
  assumes "bgpNeighborRegex h = Some a" and "ParseIP a = IPnil"
    and "bgpConnectionsEstablishedDroppedRegex c = Some (e, d)"
  shows "parseLine h st =
       Inr \<lparr>neigh = a, bgpNeigh = Some newBgpNeighbor, bgpNeighbors = bgpNeighbors st\<rparr>
     \<and> parseLines [h, c] st =
       Inr \<lparr>neigh = a,
            bgpNeigh = Some (newBgpNeighbor\<lparr>ConnectionsEstablished := ParseFloat e,
                                             ConnectionsDropped := ParseFloat d\<rparr>),
            bgpNeighbors = bgpNeighbors st @
              [newBgpNeighbor\<lparr>ConnectionsEstablished := ParseFloat e,
                              ConnectionsDropped := ParseFloat d\<rparr>]\<rparr>
     \<and> IP newBgpNeighbor = IPnil"
proof -
  let ?st1 = "\<lparr>neigh = a, bgpNeigh = Some newBgpNeighbor, bgpNeighbors = bgpNeighbors st\<rparr>"
  have nil: "IP newBgpNeighbor = IPnil" by (simp add: newBgpNeighbor_def)
  then have same: "newBgpNeighbor\<lparr>IP := ParseIP a\<rparr> = newBgpNeighbor" using assms(2) by simp
  have h: "parseLine h st = Inr ?st1" using parseLine_header [OF assms(1), of st] same by simp
  have a: "a \<noteq> []" using assms(1) by (rule header_nonempty)
  have "a \<notin> identity ` set (bgpNeighbors st)"
    using assms(2) header_chars [OF assms(1)] by (rule unparsed_not_stored)
  then have "parseLine c ?st1 =
       Inr \<lparr>neigh = a,
            bgpNeigh = Some (newBgpNeighbor\<lparr>ConnectionsEstablished := ParseFloat e,
                                             ConnectionsDropped := ParseFloat d\<rparr>),
            bgpNeighbors = bgpNeighbors st @
              [newBgpNeighbor\<lparr>ConnectionsEstablished := ParseFloat e,
                              ConnectionsDropped := ParseFloat d\<rparr>]\<rparr>"
    using parseLine_counters [OF assms(3), of ?st1 newBgpNeighbor] a same
    by (simp add: commit_eq)
  then show ?thesis using h nil by simp
qed

theorem unparseable_header_opens_record_witness:
  "parseLines [''BGP neighbor is 10.0.0, remote AS 65001'',
               ''  Connections established 3; dropped 2''] (initState [])
   = Inr \<lparr>neigh = ''10.0.0'',
      bgpNeigh = Some \<lparr>IP = IPnil, State = Finite 0, AcceptedPrefixes = Finite 0,
        ConnectionsEstablished = Finite 3, ConnectionsDropped = Finite 2\<rparr>,
      bgpNeighbors = [\<lparr>IP = IPnil, State = Finite 0, AcceptedPrefixes = Finite 0,
        ConnectionsEstablished = Finite 3, ConnectionsDropped = Finite 2\<rparr>]\<rparr>"
proof -
  have h1: "bgpNeighborRegex ''BGP neighbor is 10.0.0, remote AS 65001'' = Some ''10.0.0''"
    by (simp add: regex_defs)
  have h2: "ParseIP ''10.0.0'' = IPnil"
    by (simp add: value_defs regex_defs)
  have h3: "bgpConnectionsEstablishedDroppedRegex ''  Connections established 3; dropped 2''
      = Some (''3'', ''2'')"
    by (simp add: regex_defs)
  have h4: "ParseFloat ''3'' = Finite 3" "ParseFloat ''2'' = Finite 2"
    by (simp_all add: value_defs)
  note t = unparseable_header_opens_record [OF h1 h2 h3, of "initState []",
      THEN conjunct2, THEN conjunct1]
  show ?thesis
    by (subst t) (simp add: initState_def newBgpNeighbor_def h4)
qed

text \<open>
  C7 as stated fails: the header with the address 10.0.0 is not ignored, the block commits a
  record with the nil address.
\<close>

theorem unparseable_header_counterexample:
  "parseBGP (''BGP neighbor is 10.0.0, remote AS 65001'' @ [newline] @
             ''  BGP state = Established, up for 3d'' @ [newline] @
             ''  Connections established 3; dropped 2'' @ [newline]) []
   = Inr [\<lparr>IP = IPnil, State = Finite 6, AcceptedPrefixes = Finite 0,
        ConnectionsEstablished = Finite 3, ConnectionsDropped = Finite 2\<rparr>]"
  by (simp add: parse_defs regex_defs value_defs)

section \<open>Commits happen at connection-counters lines only\<close>



section \<open>Lines that match no pattern\<close>

text \<open>
  C9. Parsing is invariant under insertion of unrecognised or blank lines: for every block
  \<open>s\<close>, with the lines \<open>Split s\<close>, and every block obtained by inserting at any positions
  lines that match none of the four patterns, both blocks produce the same sequence of
  committed records (the same commits, under the same keys, in the same order). The loop also
  ends in the same state for both blocks, and \<^verbatim>\<open>parseBGP\<close> turns the same slice into the same
  slice.
\<close>

theorem unrecognized_lines_ignored:
  assumes "\<forall>(i, l) \<in> set ins. \<not> recognized l \<and> newline \<notin> set l"
  shows "committedRecords (joinWith newline (insertLines ins (Split s))) store
       = committedRecords s store
     \<and> parseLines (Split (TrimSuffix (joinWith newline (insertLines ins (Split s)))))
         (initState store)
       = parseLines (Split (TrimSuffix s)) (initState store)
     \<and> parseBGP (joinWith newline (insertLines ins (Split s))) store = parseBGP s store"
proof -
  let ?s' = "joinWith newline (insertLines ins (Split s))"
  have nl: "\<forall>l \<in> set (Split s). newline \<notin> set l"
    using splitOn_no_sep [of newline "[]" s] by (simp add: Split_def)
  have nl': "\<forall>l \<in> set (insertLines ins (Split s)). newline \<notin> set l"
    using assms nl by (rule newline_insertLines)
  have "filter recognized (Split (TrimSuffix ?s')) = filter recognized (insertLines ins (Split s))"
    using nl' by (rule lines_of_joined)
  also have "\<dots> = filter recognized (Split s)"
    using assms by (rule filter_insertLines)
  also have "\<dots> = filter recognized (Split (TrimSuffix s))"
    by (simp add: filter_lines)
  finally have f: "filter recognized (Split (TrimSuffix ?s')) = filter recognized (Split (TrimSuffix s))" .
  have tr: "committedRecords ?s' store = committedRecords s store"
    using commitTrace_filter_recognized [OF consistent_initState, of "Split (TrimSuffix ?s')" store]
      commitTrace_filter_recognized [OF consistent_initState, of "Split (TrimSuffix s)" store] f
    by (simp add: committedRecords_def)
  have ps: "parseLines (Split (TrimSuffix ?s')) (initState store)
       = parseLines (Split (TrimSuffix s)) (initState store)"
    using parseLines_filter_recognized [OF consistent_initState, of "Split (TrimSuffix ?s')" store]
      parseLines_filter_recognized [OF consistent_initState, of "Split (TrimSuffix s)" store] f
    by simp
  then have "parseBGP ?s' store = parseBGP s store" by (simp add: parseBGP_def)
  then show ?thesis using tr ps by simp
qed

theorem unrecognized_lines_ignored_witness:
  "committedRecords (joinWith newline (insertLines
      [(1, []), (0, ''show ip bgp neighbors''), (4, ''  Local host: 10.0.0.2, Local port: 179'')]
      (Split (''BGP neighbor is 10.0.0.1, remote AS ...'' @ [newline] @
       ''  BGP state = Established, up for 3d'' @ [newline] @
       ''  5 accepted prefixes'' @ [newline] @
       ''  Connections established 12; dropped 1'' @ [newline])))) []
   = [(''10.0.0.1'', \<lparr>IP = IPv4 10 0 0 1, State = Finite 6, AcceptedPrefixes = Finite 5,
        ConnectionsEstablished = Finite 12, ConnectionsDropped = Finite 1\<rparr>)]
   \<and> parseBGP (joinWith newline (insertLines
      [(1, []), (0, ''show ip bgp neighbors''), (4, ''  Local host: 10.0.0.2, Local port: 179'')]
      (Split (''BGP neighbor is 10.0.0.1, remote AS ...'' @ [newline] @
       ''  BGP state = Established, up for 3d'' @ [newline] @
       ''  5 accepted prefixes'' @ [newline] @
       ''  Connections established 12; dropped 1'' @ [newline])))) []
   = Inr [\<lparr>IP = IPv4 10 0 0 1, State = Finite 6, AcceptedPrefixes = Finite 5,
        ConnectionsEstablished = Finite 12, ConnectionsDropped = Finite 1\<rparr>]"
proof -
  have h: "\<forall>(i, l) \<in> set [(1, []), (0, ''show ip bgp neighbors''), (4, ''  Local host: 10.0.0.2, Local port: 179'')].
      \<not> recognized l \<and> newline \<notin> set l"
    by (simp add: recognized_def regex_defs)
  note t = unrecognized_lines_ignored [OF h, of
    "''BGP neighbor is 10.0.0.1, remote AS ...'' @ [newline] @
       ''  BGP state = Established, up for 3d'' @ [newline] @
       ''  5 accepted prefixes'' @ [newline] @
       ''  Connections established 12; dropped 1'' @ [newline]" "[]"]
  have c: "committedRecords (''BGP neighbor is 10.0.0.1, remote AS ...'' @ [newline] @
       ''  BGP state = Established, up for 3d'' @ [newline] @
       ''  5 accepted prefixes'' @ [newline] @
       ''  Connections established 12; dropped 1'' @ [newline]) []
    = [(''10.0.0.1'', \<lparr>IP = IPv4 10 0 0 1, State = Finite 6, AcceptedPrefixes = Finite 5,
        ConnectionsEstablished = Finite 12, ConnectionsDropped = Finite 1\<rparr>)]"
    by (simp add: committedRecords_def commitOf_def parse_defs regex_defs value_defs)
  have p: "parseBGP (''BGP neighbor is 10.0.0.1, remote AS ...'' @ [newline] @
       ''  BGP state = Established, up for 3d'' @ [newline] @
       ''  5 accepted prefixes'' @ [newline] @
       ''  Connections established 12; dropped 1'' @ [newline]) []
    = Inr [\<lparr>IP = IPv4 10 0 0 1, State = Finite 6, AcceptedPrefixes = Finite 5,
        ConnectionsEstablished = Finite 12, ConnectionsDropped = Finite 1\<rparr>]"
    by (simp add: parse_defs regex_defs value_defs)
  show ?thesis using t c p by simp
qed

section \<open>The slice never shrinks\<close>

text \<open>
  C10 (as amended). For every sequence of parsed blocks (rounds of the loop whose command
  succeeds) no stored entry is ever removed: the loop does not fail, the slice is at least as
  long afterwards and every position keeps its identity, so an identity once committed
  remains present. A call of \<^verbatim>\<open>parseBGP\<close> changes the slice by its commits alone: an entry
  whose identity is not committed in the call keeps its value, and for an address that
  parses, the last record committed under it is stored afterwards and every stored entry with
  that identity equals it. The slice holds at most one entry per identity key other than the
  nil address: if the identities other than \<^verbatim>\<open><nil>\<close> are distinct before, they are distinct
  afterwards, as they are in every slice reached from the empty one.
\<close>

theorem store_never_shrinks:
  assumes "\<forall>r \<in> set rs. err r = None"
  shows "(\<exists>store'. pollLoop rs store = Inr store'
       \<and> length store \<le> length store'
       \<and> take (length store) (map identity store') = map identity store
       \<and> (distinct (filter (\<lambda>k. k \<noteq> ''<nil>'') (map identity store)) \<longrightarrow>
            distinct (filter (\<lambda>k. k \<noteq> ''<nil>'') (map identity store'))))
     \<and> (\<exists>store'. parseBGP s store = Inr store'
       \<and> store' = applyCommits (committedRecords s store) store
       \<and> (\<forall>i < length store. identity (store ! i) \<notin> fst ` set (committedRecords s store) \<longrightarrow>
            store' ! i = store ! i)
       \<and> (\<forall>n b xs ys. committedRecords s store = xs @ (n, b) # ys \<and> n \<notin> fst ` set ys
              \<and> ParseIP n \<noteq> IPnil \<longrightarrow>
            b \<in> set store' \<and> (\<forall>r \<in> set store'. identity r = n \<longrightarrow> r = b)))"
proof
  show "\<exists>store'. pollLoop rs store = Inr store'
       \<and> length store \<le> length store'
       \<and> take (length store) (map identity store') = map identity store
       \<and> (distinct (filter (\<lambda>k. k \<noteq> ''<nil>'') (map identity store)) \<longrightarrow>
            distinct (filter (\<lambda>k. k \<noteq> ''<nil>'') (map identity store')))"
    using pollLoop_extends [OF assms, of store] by (simp add: extends_def distinctParsed_def)
next
  let ?cs = "committedRecords s store"
  have keys: "\<forall>(n, b) \<in> set ?cs. IP b = ParseIP n"
    using commitTrace_keys by (auto simp: committedRecords_def)
  from parseBGP_trace [of s store] obtain store'
    where p: "parseBGP s store = Inr store'" "store' = applyCommits ?cs store" by blast
  have a: "\<forall>i < length store. identity (store ! i) \<notin> fst ` set ?cs \<longrightarrow> store' ! i = store ! i"
    using applyCommits_untouched [OF keys] p(2) by simp
  have b: "\<forall>n b xs ys. ?cs = xs @ (n, b) # ys \<and> n \<notin> fst ` set ys \<and> ParseIP n \<noteq> IPnil \<longrightarrow>
            b \<in> set store' \<and> (\<forall>r \<in> set store'. identity r = n \<longrightarrow> r = b)"
  proof (intro allI impI)
    fix n b xs ys
    assume h: "?cs = xs @ (n, b) # ys \<and> n \<notin> fst ` set ys \<and> ParseIP n \<noteq> IPnil"
    then have "\<forall>(n, b) \<in> set (xs @ (n, b) # ys). IP b = ParseIP n" using keys by simp
    from last_commit_wins [OF this, of store] h p(2)
    show "b \<in> set store' \<and> (\<forall>r \<in> set store'. identity r = n \<longrightarrow> r = b)" by simp
  qed
  show "\<exists>store'. parseBGP s store = Inr store'
       \<and> store' = applyCommits ?cs store
       \<and> (\<forall>i < length store. identity (store ! i) \<notin> fst ` set ?cs \<longrightarrow> store' ! i = store ! i)
       \<and> (\<forall>n b xs ys. ?cs = xs @ (n, b) # ys \<and> n \<notin> fst ` set ys \<and> ParseIP n \<noteq> IPnil \<longrightarrow>
            b \<in> set store' \<and> (\<forall>r \<in> set store'. identity r = n \<longrightarrow> r = b))"
    using p a b by blast
qed

theorem store_never_shrinks_witness:
  "(\<exists>store'. pollLoop
      [\<lparr>sout = ''BGP neighbor is 10.0.0.1, remote AS 65001'' @ [newline] @
          ''  Connections established 3; dropped 2'' @ [newline],
        serr = [], err = None\<rparr>,
       \<lparr>sout = ''BGP neighbor is 10.0.0.1, remote AS 65001'' @ [newline] @
          ''  Connections established 4; dropped 3'' @ [newline],
        serr = [], err = None\<rparr>] [] = Inr store'
      \<and> distinct (filter (\<lambda>k. k \<noteq> ''<nil>'') (map identity store')))
   \<and> (\<exists>store'. parseBGP (''BGP neighbor is 10.0.0.1, remote AS 65001'' @ [newline] @
      ''  Connections established 3; dropped 2'' @ [newline] @
      ''  Connections established 4; dropped 3'') [] = Inr store'
      \<and> \<lparr>IP = IPv4 10 0 0 1, State = Finite 0, AcceptedPrefixes = Finite 0,
        ConnectionsEstablished = Finite 4, ConnectionsDropped = Finite 3\<rparr> \<in> set store'
      \<and> (\<forall>r \<in> set store'. identity r = ''10.0.0.1'' \<longrightarrow>
            r = \<lparr>IP = IPv4 10 0 0 1, State = Finite 0, AcceptedPrefixes = Finite 0,
        ConnectionsEstablished = Finite 4, ConnectionsDropped = Finite 3\<rparr>))"
proof -
  have h: "\<forall>r \<in> set [\<lparr>sout = ''BGP neighbor is 10.0.0.1, remote AS 65001'' @ [newline] @
          ''  Connections established 3; dropped 2'' @ [newline],
        serr = [], err = None\<rparr>,
       \<lparr>sout = ''BGP neighbor is 10.0.0.1, remote AS 65001'' @ [newline] @
          ''  Connections established 4; dropped 3'' @ [newline],
        serr = [], err = None\<rparr>]. err r = None"
    by simp
  note t = store_never_shrinks [OF h, of "[]"
      "''BGP neighbor is 10.0.0.1, remote AS 65001'' @ [newline] @
      ''  Connections established 3; dropped 2'' @ [newline] @
      ''  Connections established 4; dropped 3''"]
  have q: "committedRecords (''BGP neighbor is 10.0.0.1, remote AS 65001'' @ [newline] @
      ''  Connections established 3; dropped 2'' @ [newline] @
      ''  Connections established 4; dropped 3'') []
      = [(''10.0.0.1'', \<lparr>IP = IPv4 10 0 0 1, State = Finite 0, AcceptedPrefixes = Finite 0,
        ConnectionsEstablished = Finite 3, ConnectionsDropped = Finite 2\<rparr>)] @
        (''10.0.0.1'', \<lparr>IP = IPv4 10 0 0 1, State = Finite 0, AcceptedPrefixes = Finite 0,
        ConnectionsEstablished = Finite 4, ConnectionsDropped = Finite 3\<rparr>) # []
      \<and> ''10.0.0.1'' \<notin> fst ` set ([] :: (string \<times> BgpNeighbor) list)
      \<and> ParseIP ''10.0.0.1'' \<noteq> IPnil"
    by (simp add: committedRecords_def commitOf_def parse_defs regex_defs value_defs)
  from t have "\<exists>store'. pollLoop
      [\<lparr>sout = ''BGP neighbor is 10.0.0.1, remote AS 65001'' @ [newline] @
          ''  Connections established 3; dropped 2'' @ [newline],
        serr = [], err = None\<rparr>,
       \<lparr>sout = ''BGP neighbor is 10.0.0.1, remote AS 65001'' @ [newline] @
          ''  Connections established 4; dropped 3'' @ [newline],
        serr = [], err = None\<rparr>] [] = Inr store'
       \<and> length ([] :: BgpNeighbor list) \<le> length store'
       \<and> take (length ([] :: BgpNeighbor list)) (map identity store') = map identity []
       \<and> (distinct (filter (\<lambda>k. k \<noteq> ''<nil>'') (map identity [])) \<longrightarrow>
            distinct (filter (\<lambda>k. k \<noteq> ''<nil>'') (map identity store')))"
    by (rule conjunct1)
  then obtain s1 where s1: "pollLoop
      [\<lparr>sout = ''BGP neighbor is 10.0.0.1, remote AS 65001'' @ [newline] @
          ''  Connections established 3; dropped 2'' @ [newline],
        serr = [], err = None\<rparr>,
       \<lparr>sout = ''BGP neighbor is 10.0.0.1, remote AS 65001'' @ [newline] @
          ''  Connections established 4; dropped 3'' @ [newline],
        serr = [], err = None\<rparr>] [] = Inr s1"
    "distinct (filter (\<lambda>k. k \<noteq> ''<nil>'') (map identity ([] :: BgpNeighbor list))) \<longrightarrow>
            distinct (filter (\<lambda>k. k \<noteq> ''<nil>'') (map identity s1))"
    by (elim exE conjE)
  have "distinct (filter (\<lambda>k. k \<noteq> ''<nil>'') (map identity s1))"
    using s1(2) by simp
  then have a: "\<exists>store'. pollLoop
      [\<lparr>sout = ''BGP neighbor is 10.0.0.1, remote AS 65001'' @ [newline] @
          ''  Connections established 3; dropped 2'' @ [newline],
        serr = [], err = None\<rparr>,
       \<lparr>sout = ''BGP neighbor is 10.0.0.1, remote AS 65001'' @ [newline] @
          ''  Connections established 4; dropped 3'' @ [newline],
        serr = [], err = None\<rparr>] [] = Inr store'
      \<and> distinct (filter (\<lambda>k. k \<noteq> ''<nil>'') (map identity store'))"
    using s1(1) by (intro exI [of _ s1] conjI)
  from t obtain s2 where s2: "parseBGP (''BGP neighbor is 10.0.0.1, remote AS 65001'' @ [newline] @
      ''  Connections established 3; dropped 2'' @ [newline] @
      ''  Connections established 4; dropped 3'') [] = Inr s2"
    and w: "\<forall>n b xs ys. committedRecords (''BGP neighbor is 10.0.0.1, remote AS 65001'' @ [newline] @
      ''  Connections established 3; dropped 2'' @ [newline] @
      ''  Connections established 4; dropped 3'') [] = xs @ (n, b) # ys \<and> n \<notin> fst ` set ys
              \<and> ParseIP n \<noteq> IPnil \<longrightarrow>
            b \<in> set s2 \<and> (\<forall>r \<in> set s2. identity r = n \<longrightarrow> r = b)"
    by (elim exE conjE)
  from w [rule_format, OF q] s2
  have b: "\<exists>store'. parseBGP (''BGP neighbor is 10.0.0.1, remote AS 65001'' @ [newline] @
      ''  Connections established 3; dropped 2'' @ [newline] @
      ''  Connections established 4; dropped 3'') [] = Inr store'
      \<and> \<lparr>IP = IPv4 10 0 0 1, State = Finite 0, AcceptedPrefixes = Finite 0,
        ConnectionsEstablished = Finite 4, ConnectionsDropped = Finite 3\<rparr> \<in> set store'
      \<and> (\<forall>r \<in> set store'. identity r = ''10.0.0.1'' \<longrightarrow>
            r = \<lparr>IP = IPv4 10 0 0 1, State = Finite 0, AcceptedPrefixes = Finite 0,
        ConnectionsEstablished = Finite 4, ConnectionsDropped = Finite 3\<rparr>)"
    by (intro exI [of _ s2] conjI) simp_all
  show ?thesis using a b by (rule conjI)
qed

text \<open>
  C10 as stated fails for the nil address: two rounds over a block whose header carries the
  address 10.0.0 leave two entries with the same identity in the slice.
\<close>

theorem store_two_nil_entries_counterexample:
  "pollLoop
      [\<lparr>sout = ''BGP neighbor is 10.0.0, remote AS 65001'' @ [newline] @
          ''  Connections established 3; dropped 2'' @ [newline],
        serr = [], err = None\<rparr>,
       \<lparr>sout = ''BGP neighbor is 10.0.0, remote AS 65001'' @ [newline] @
          ''  Connections established 4; dropped 3'' @ [newline],
        serr = [], err = None\<rparr>] []
   = Inr [\<lparr>IP = IPnil, State = Finite 0, AcceptedPrefixes = Finite 0,
        ConnectionsEstablished = Finite 3, ConnectionsDropped = Finite 2\<rparr>,
          \<lparr>IP = IPnil, State = Finite 0, AcceptedPrefixes = Finite 0,
        ConnectionsEstablished = Finite 4, ConnectionsDropped = Finite 3\<rparr>]"
  by (simp add: pollCycle_def getBgpNeighbors_def parse_defs regex_defs value_defs)

end
